theory Spec2Isabelle
  imports Main "HOL-Library.AList"
begin

section \<open>Python values and exceptions\<close>

text \<open>
  The program is \<^verbatim>\<open>src/transform.py\<close> (Python 2). Exceptions are values of the
  type \<open>error\<close>; a function that can raise returns \<open>error + 'a\<close>, \<open>Inl\<close> being the
  exception that propagates.
  \<^item> \<open>ValueError_cant_interpret init\<close> is \<^verbatim>\<open>ValueError("can't interpret %r" % init)\<close>,
    raised by \<^verbatim>\<open>human2bytes\<close> itself;
  \<^item> \<open>ValueError_float num\<close> is the \<^verbatim>\<open>ValueError\<close> raised by the builtin
    \<^verbatim>\<open>float(num)\<close> on a string that is no float literal;
  \<^item> \<open>KeyError k\<close> is a failed dictionary lookup, \<open>IndexError\<close> a list index out of
    range, \<open>OverflowError\<close> the conversion of an infinite float to an integer;
  \<^item> \<open>ValueError_strptime\<close> is a failure of \<^verbatim>\<open>datetime.strptime\<close>.
\<close>

datatype error =
    ValueError_cant_interpret string
  | ValueError_float string
  | KeyError string
  | IndexError
  | OverflowError
  | ValueError_strptime string

text \<open>
  A record of the program is a Python \<^verbatim>\<open>dict\<close> from strings to values; the value
  under \<^verbatim>\<open>'Date'\<close> is a string, the others are integers (\<^verbatim>\<open>int\<close> or \<^verbatim>\<open>long\<close>,
  both unbounded here). The dictionary is an association list with distinct keys, in
  insertion order; \<open>AList.update\<close> is \<^verbatim>\<open>d[k] = v\<close> and \<open>map_of\<close> the lookup. Python 2
  iterates a dictionary in an order of its own: the model fixes the insertion order, and
  the properties below speak of key sets and of rows, never of that order.
\<close>

datatype pyval = VStr string | VInt int

type_synonym pydict = "(string \<times> pyval) list"

section \<open>String operations\<close>

definition isspace_char :: "char \<Rightarrow> bool" where
  "isspace_char c \<longleftrightarrow> c \<in> set [CHR '' '', CHR 0x09, CHR 0x0A, CHR 0x0B, CHR 0x0C, CHR 0x0D]"

definition isdigit_char :: "char \<Rightarrow> bool" where
  "isdigit_char c \<longleftrightarrow> c \<in> set ''0123456789''"

text \<open>\<^verbatim>\<open>s.strip()\<close>: leading and trailing whitespace removed.\<close>

definition strip :: "string \<Rightarrow> string" where
  "strip s = rev (dropWhile isspace_char (rev (dropWhile isspace_char s)))"

text \<open>\<^verbatim>\<open>s.isdigit()\<close>: non-empty and every character a digit.\<close>

definition isdigit :: "string \<Rightarrow> bool" where
  "isdigit s \<longleftrightarrow> s \<noteq> [] \<and> list_all isdigit_char s"

definition digit_val :: "char \<Rightarrow> nat" where
  "digit_val c = of_char c - 48"

text \<open>The value of a string of decimal digits, as \<^verbatim>\<open>long(s)\<close> reads it.\<close>

definition decimal :: "string \<Rightarrow> nat" where
  "decimal s = foldl (\<lambda>n c. 10 * n + digit_val c) 0 s"

text \<open>\<^verbatim>\<open>s.split(sep)\<close> for a one-character separator: never the empty list.\<close>

fun split :: "char \<Rightarrow> string \<Rightarrow> string list" where
  "split sep [] = [[]]"
| "split sep (c # s) =
     (if c = sep then [] # split sep s
      else (case split sep s of w # ws \<Rightarrow> (c # w) # ws | [] \<Rightarrow> [[c]]))"

text \<open>\<^verbatim>\<open>sub in s\<close> on strings: \<open>sub\<close> occurs in \<open>s\<close> as a contiguous substring.\<close>

fun contains :: "string \<Rightarrow> string \<Rightarrow> bool" where
  "contains sub [] \<longleftrightarrow> sub = []"
| "contains sub (c # s) \<longleftrightarrow> take (length sub) (c # s) = sub \<or> contains sub s"

text \<open>\<^verbatim>\<open>letter.upper()\<close> on ASCII.\<close>

definition upper_char :: "char \<Rightarrow> char" where
  "upper_char c =
     (case map_of (zip ''abcdefghijklmnopqrstuvwxyz'' ''ABCDEFGHIJKLMNOPQRSTUVWXYZ'') c of
        None \<Rightarrow> c
      | Some u \<Rightarrow> u)"

definition upper :: "string \<Rightarrow> string" where
  "upper s = map upper_char s"

section \<open>Floating point\<close>

text \<open>
  \<^verbatim>\<open>human2bytes\<close> computes \<^verbatim>\<open>int(float(num) * prefix[letter])\<close>. The numeric part
  \<^verbatim>\<open>num\<close> holds digits and dots only, so every float that arises is non-negative and
  is either finite or \<^verbatim>\<open>inf\<close>. \<open>Finite m e\<close> is the IEEE-754 binary64 number
  \<open>m * 2 ^ e\<close>. Conversion from a decimal string and multiplication round to nearest,
  ties to even, with 53 bits of precision, least exponent \<open>-1074\<close>, and overflow to
  \<^verbatim>\<open>inf\<close> from \<open>2 ^ 1024\<close> on (a rounded \<open>m * 2 ^ e\<close> with more than 1024 bits), as
  CPython 2.7 does on IEEE hardware.
\<close>

datatype pyfloat = Finite nat int | Infinity

text \<open>The number of bits of \<open>n\<close>: \<open>2 ^ (bit_length n - 1) \<le> n < 2 ^ bit_length n\<close> for \<open>n > 0\<close>.\<close>

fun bit_length :: "nat \<Rightarrow> int" where
  "bit_length n = (if n = 0 then 0 else 1 + bit_length (n div 2))"

declare bit_length.simps [simp del]

text \<open>The integer nearest to \<open>a / b\<close>, the even one of two equally near.\<close>

definition round_half_even :: "nat \<Rightarrow> nat \<Rightarrow> nat" where
  "round_half_even a b =
     (let q = a div b; r = a mod b
      in if 2 * r < b then q
         else if b < 2 * r then q + 1
         else if even q then q else q + 1)"

text \<open>The double nearest to the fraction \<open>a / b\<close> (\<open>b > 0\<close>).\<close>

definition float_round :: "nat \<Rightarrow> nat \<Rightarrow> pyfloat" where
  "float_round a b =
     (if a = 0 then Finite 0 0
      else
        let d = bit_length a - bit_length b;
            l = (if b * 2 ^ nat d \<le> a * 2 ^ nat (- d) then d else d - 1);
            e = max (l - 52) (- 1074);
            m = round_half_even (a * 2 ^ nat (- e)) (b * 2 ^ nat e)
        in if 1024 < bit_length m + e then Infinity else Finite m e)"

text \<open>
  \<^verbatim>\<open>float(num)\<close> for a string of digits and dots: a float literal has at most one dot
  and at least one digit; anything else raises \<^verbatim>\<open>ValueError\<close>.
\<close>

definition py_float :: "string \<Rightarrow> error + pyfloat" where
  "py_float num =
     (let ip = takeWhile (\<lambda>c. c \<noteq> CHR ''.'') num;
          fp = drop (Suc (length ip)) num
      in if list_all isdigit_char (ip @ fp) \<and> ip @ fp \<noteq> []
         then Inr (float_round (decimal (ip @ fp)) (10 ^ length fp))
         else Inl (ValueError_float num))"

text \<open>\<^verbatim>\<open>x * p\<close> for a float \<open>x\<close> and a positive integer \<open>p\<close>, which is converted to a float first.\<close>

definition float_mul :: "pyfloat \<Rightarrow> nat \<Rightarrow> error + pyfloat" where
  "float_mul x p =
     (case float_round p 1 of
        Infinity \<Rightarrow> Inl OverflowError
      | Finite m2 e2 \<Rightarrow>
          (case x of
             Infinity \<Rightarrow> Inr Infinity
           | Finite m1 e1 \<Rightarrow>
               Inr (float_round (m1 * m2 * 2 ^ nat (e1 + e2)) (2 ^ nat (- (e1 + e2))))))"

text \<open>\<^verbatim>\<open>int(x)\<close>: truncation; \<^verbatim>\<open>inf\<close> raises \<^verbatim>\<open>OverflowError\<close>.\<close>

definition py_int :: "pyfloat \<Rightarrow> error + int" where
  "py_int x =
     (case x of
        Infinity \<Rightarrow> Inl OverflowError
      | Finite m e \<Rightarrow> Inr (int (m * 2 ^ nat e div 2 ^ nat (- e))))"

section \<open>The size decoder: \<^verbatim>\<open>human2bytes\<close>\<close>

text \<open>The table \<^verbatim>\<open>SYMBOLS\<close>, as the list of its items in source order.\<close>

definition SYMBOLS :: "(string \<times> string list) list" where
  "SYMBOLS =
     [(''customary'', [''B'', ''KB'', ''MB'', ''GB'', ''TB'', ''PB'', ''EB'', ''ZB'', ''YB'']),
      (''customary_short'', [''B'', ''K'', ''M'', ''G'', ''T'', ''P'', ''E'', ''Z'', ''Y'']),
      (''customary_ext'', [''byte'', ''kilo'', ''mega'', ''giga'', ''tera'', ''peta'', ''exa'',
                           ''zetta'', ''iotta'']),
      (''iec'', [''Bi'', ''Ki'', ''Mi'', ''Gi'', ''Ti'', ''Pi'', ''Ei'', ''Zi'', ''Yi'']),
      (''iec_ext'', [''byte'', ''kibi'', ''mebi'', ''gibi'', ''tebi'', ''pebi'', ''exbi'',
                     ''zebi'', ''yobi''])]"

text \<open>
  The loop \<^verbatim>\<open>while s and s[0:1].isdigit() or s[0:1] == '.'\<close>: moves leading digits and
  dots from \<open>s\<close> to the end of \<open>num\<close>; the result is \<open>(num, s)\<close> when it stops.
\<close>

fun split_num :: "string \<Rightarrow> string \<Rightarrow> string \<times> string" where
  "split_num num [] = (num, [])"
| "split_num num (c # s) =
     (if isdigit_char c \<or> c = CHR ''.'' then split_num (num @ [c]) s else (num, c # s))"

text \<open>
  The dictionary \<^verbatim>\<open>prefix\<close>: \<^verbatim>\<open>{sset[0]: 1}\<close>, then
  \<^verbatim>\<open>prefix[s] = 1 << (i+1)*10\<close> for \<^verbatim>\<open>i, s in enumerate(sset[1:])\<close>.
\<close>

definition prefix_table :: "string list \<Rightarrow> error + (string \<times> nat) list" where
  "prefix_table sset =
     (case sset of
        [] \<Rightarrow> Inl IndexError
      | s0 # rest \<Rightarrow>
          Inr (fold (\<lambda>(i, s) prefix. AList.update s (2 ^ ((i + 1) * 10)) prefix)
                 (enumerate 0 rest) [(s0, 1)]))"

text \<open>
  The search for the symbol, with \<^verbatim>\<open>SYMBOLS.items()\<close> yielding \<open>items\<close>: the
  \<^verbatim>\<open>for\<close> loop stops at the first set that holds \<open>letter\<close>; its \<^verbatim>\<open>else\<close> branch
  runs when no set does. The result is the pair \<open>(sset, letter)\<close> that the rest of
  \<^verbatim>\<open>human2bytes\<close> uses.
\<close>

definition search_symbol ::
  "(string \<times> string list) list \<Rightarrow> string \<Rightarrow> string \<Rightarrow> error + (string list \<times> string)" where
  "search_symbol items letter init =
     (case find (\<lambda>(name, sset). letter \<in> set sset) items of
        Some (name, sset) \<Rightarrow> Inr (sset, letter)
      | None \<Rightarrow>
          if letter = ''k''
          then (case map_of items ''customary'' of
                  None \<Rightarrow> Inl (KeyError ''customary'')
                | Some sset \<Rightarrow> Inr (sset, upper letter))
          else Inl (ValueError_cant_interpret init))"

text \<open>The end of \<^verbatim>\<open>human2bytes\<close>: \<^verbatim>\<open>int(num * prefix[letter])\<close>.\<close>

definition scale :: "pyfloat \<Rightarrow> string list \<Rightarrow> string \<Rightarrow> error + int" where
  "scale num sset letter =
     (case prefix_table sset of
        Inl err \<Rightarrow> Inl err
      | Inr prefix \<Rightarrow>
          (case map_of prefix letter of
             None \<Rightarrow> Inl (KeyError letter)
           | Some p \<Rightarrow>
               (case float_mul num p of
                  Inl err \<Rightarrow> Inl err
                | Inr x \<Rightarrow> py_int x)))"

text \<open>\<open>human2bytes_items items s\<close> is \<^verbatim>\<open>human2bytes(s)\<close> when \<^verbatim>\<open>SYMBOLS.items()\<close> yields \<open>items\<close>.\<close>

definition human2bytes_items :: "(string \<times> string list) list \<Rightarrow> string \<Rightarrow> error + int" where
  "human2bytes_items items s0 =
     (let s = strip s0
      in if isdigit s then Inr (int (decimal s))
         else
           let init = s;
               (num, s) = split_num [] s
           in case py_float num of
                Inl err \<Rightarrow> Inl err
              | Inr num \<Rightarrow>
                  (case search_symbol items (strip s) init of
                     Inl err \<Rightarrow> Inl err
                   | Inr (sset, letter) \<Rightarrow> scale num sset letter))"

definition human2bytes :: "string \<Rightarrow> error + int" where
  "human2bytes s = human2bytes_items SYMBOLS s"

section \<open>The line parser: \<^verbatim>\<open>parse_line\<close>\<close>

text \<open>\<^verbatim>\<open>" ".join(xs)\<close>.\<close>

fun join :: "string \<Rightarrow> string list \<Rightarrow> string" where
  "join sep [] = []"
| "join sep [x] = x"
| "join sep (x # y # ys) = x @ sep @ join sep (y # ys)"

text \<open>
  The date fix-up of \<^verbatim>\<open>parse_line\<close>. The library call
  \<^verbatim>\<open>strptime(_, '%a %b %d %H:%M:%S %Y').strftime("%Y-%m-%dT%H:%M:%S")\<close> is the
  parameter \<open>strptime_iso\<close>; the list operations around it are the source's:
  \<^verbatim>\<open>darr[4]\<close> raises \<^verbatim>\<open>IndexError\<close> on fewer than five words.
\<close>

definition fixup_date :: "(string \<Rightarrow> error + string) \<Rightarrow> string \<Rightarrow> error + string" where
  "fixup_date strptime_iso datestring =
     (let darr = split (CHR '' '') datestring
      in if length darr \<le> 4 then Inl IndexError
         else strptime_iso (join '' '' (take 4 darr @ take 1 (drop 5 darr))))"

text \<open>
  The loop \<^verbatim>\<open>for element in ListOfStrings\<close> over the fields after the date, on the
  dictionary \<open>data\<close>. \<^verbatim>\<open>x[1]\<close> raises \<^verbatim>\<open>IndexError\<close> when the element has no colon;
  it is evaluated only when \<^verbatim>\<open>x[0]\<close> is not in the blacklist.
\<close>

fun parse_elements :: "string list \<Rightarrow> string list \<Rightarrow> pydict \<Rightarrow> error + pydict" where
  "parse_elements blacklist [] data = Inr data"
| "parse_elements blacklist (element # rest) data =
     (if element \<noteq> [CHR 0x0A]
      then (case split (CHR '':'') element of
              [] \<Rightarrow> Inl IndexError
            | x0 # xs \<Rightarrow>
                if x0 \<notin> set blacklist
                then (case xs of
                        [] \<Rightarrow> Inl IndexError
                      | x1 # _ \<Rightarrow>
                          (case human2bytes x1 of
                             Inl err \<Rightarrow> Inl err
                           | Inr v \<Rightarrow>
                               parse_elements blacklist rest (AList.update x0 (VInt v) data)))
                else parse_elements blacklist rest data)
      else parse_elements blacklist rest data)"

text \<open>
  \<^verbatim>\<open>parse_line(inline, filename, line, fixupDate)\<close>. The arguments \<^verbatim>\<open>filename\<close>
  and \<^verbatim>\<open>line\<close> only feed the message printed before an exception is raised again,
  and are left out; the global \<^verbatim>\<open>blacklist\<close> is an argument.
\<close>

definition parse_line ::
  "(string \<Rightarrow> error + string) \<Rightarrow> string list \<Rightarrow> string \<Rightarrow> bool \<Rightarrow> error + pydict" where
  "parse_line strptime_iso blacklist inline fixupDate =
     (case split (CHR ''|'') inline of
        [] \<Rightarrow> Inl IndexError
      | datestring # ListOfStrings \<Rightarrow>
          (case (if fixupDate then fixup_date strptime_iso datestring else Inr datestring) of
             Inl err \<Rightarrow> Inl err
           | Inr datestring \<Rightarrow>
               parse_elements blacklist ListOfStrings [(''Date'', VStr datestring)]))"

definition parse_keys :: "pydict \<Rightarrow> string list" where
  "parse_keys data = map fst data"

section \<open>The driver: \<^verbatim>\<open>main\<close>\<close>

text \<open>
  The input file is the list of its lines, each with its newline. \<^verbatim>\<open>f.readline()\<close>
  returns the next line and the rest of the file, the empty string at the end of the file.
\<close>

definition readline :: "string list \<Rightarrow> string \<times> string list" where
  "readline f = (case f of [] \<Rightarrow> ([], []) | line # rest \<Rightarrow> (line, rest))"

definition turned_over :: "string \<Rightarrow> bool" where
  "turned_over line \<longleftrightarrow> contains ''turned over'' line"

text \<open>
  The line that becomes \<^verbatim>\<open>first_record\<close>, and the rest of the file: the first line,
  or the second when the first holds the rotation marker.
\<close>

definition first_line :: "string list \<Rightarrow> string \<times> string list" where
  "first_line f =
     (let (line, f') = readline f
      in if turned_over line then readline f' else (line, f'))"

text \<open>
  The loop \<^verbatim>\<open>for line in iter(f)\<close> on the state \<open>(keys, records)\<close>. Each line is parsed
  first, and an exception of the parser ends the run; the rotation marker is looked for
  after that. \<^verbatim>\<open>compare_keys\<close> holds the keys of the record that are not in \<open>keys\<close>;
  when there is one, \<open>keys\<close> becomes the keys of the record.
\<close>

fun load_loop ::
  "(string \<Rightarrow> error + string) \<Rightarrow> string list \<Rightarrow> bool \<Rightarrow> string list \<Rightarrow>
   string list \<times> pydict list \<Rightarrow> error + (string list \<times> pydict list)" where
  "load_loop strptime_iso blacklist fixupDate [] (keys, records) = Inr (keys, records)"
| "load_loop strptime_iso blacklist fixupDate (line # f) (keys, records) =
     (case parse_line strptime_iso blacklist line fixupDate of
        Inl err \<Rightarrow> Inl err
      | Inr record \<Rightarrow>
          if turned_over line
          then load_loop strptime_iso blacklist fixupDate f (keys, records)
          else
            let compare_keys = filter (\<lambda>k. k \<notin> set keys) (parse_keys record);
                keys' = (if compare_keys \<noteq> [] then parse_keys record else keys)
            in load_loop strptime_iso blacklist fixupDate f (keys', records @ [record]))"

text \<open>
  Reading the file: the first record gives the first \<open>keys\<close> and is not appended to
  \<open>records\<close> (the statement that appended it is commented out in the source).
\<close>

definition load ::
  "(string \<Rightarrow> error + string) \<Rightarrow> string list \<Rightarrow> bool \<Rightarrow> string list \<Rightarrow>
   error + (string list \<times> pydict list)" where
  "load strptime_iso blacklist fixupDate f =
     (let (line, f') = first_line f
      in case parse_line strptime_iso blacklist line fixupDate of
           Inl err \<Rightarrow> Inl err
         | Inr first_record \<Rightarrow>
             load_loop strptime_iso blacklist fixupDate f' (parse_keys first_record, []))"

text \<open>
  The first inner loop of the purge, \<^verbatim>\<open>while not key in records[i]: i = i + 1\<close>:
  the index of the first record from \<open>i\<close> on that has the key. \<^verbatim>\<open>records[i]\<close>
  raises \<^verbatim>\<open>IndexError\<close> past the end of the list.
\<close>

function first_present :: "pydict list \<Rightarrow> string \<Rightarrow> nat \<Rightarrow> error + nat" where
  "first_present records key i =
     (if length records \<le> i then Inl IndexError
      else if key \<in> fst ` set (records ! i) then Inr i
      else first_present records key (i + 1))"
  by pat_completeness auto
termination
  by (relation "measure (\<lambda>(records, key, i). length records - i)") auto

declare first_present.simps [simp del]

text \<open>
  The second inner loop, \<^verbatim>\<open>while i < end\<close>: whether a record from \<open>i\<close> on has the
  key with a value other than \<open>first_record_value\<close>; records without the key are
  passed over.
\<close>

function scan_differs :: "pydict list \<Rightarrow> string \<Rightarrow> pyval \<Rightarrow> nat \<Rightarrow> bool" where
  "scan_differs records key first_record_value i =
     (if i < length records
      then (case map_of (records ! i) key of
              None \<Rightarrow> scan_differs records key first_record_value (i + 1)
            | Some v \<Rightarrow>
                if first_record_value \<noteq> v then True
                else scan_differs records key first_record_value (i + 1))
      else False)"
  by pat_completeness auto
termination
  by (relation "measure (\<lambda>(records, key, v, i). length records - i)") auto

declare scan_differs.simps [simp del]

text \<open>
  The purge, \<^verbatim>\<open>for key in keys\<close>, with the list \<open>newkeys\<close> built so far: a key other
  than \<^verbatim>\<open>'Date'\<close> is appended to \<open>newkeys\<close> when the second loop finds a value that
  differs from the first one.
\<close>

fun purge :: "pydict list \<Rightarrow> string list \<Rightarrow> string list \<Rightarrow> error + string list" where
  "purge records [] newkeys = Inr newkeys"
| "purge records (key # keys) newkeys =
     (if key \<noteq> ''Date''
      then (case first_present records key 0 of
              Inl err \<Rightarrow> Inl err
            | Inr i \<Rightarrow>
                (case map_of (records ! i) key of
                   None \<Rightarrow> Inl (KeyError key)
                 | Some first_record_value \<Rightarrow>
                     purge records keys
                       (if scan_differs records key first_record_value i
                        then newkeys @ [key] else newkeys)))
      else purge records keys newkeys)"

text \<open>
  A row of \<^verbatim>\<open>csv.DictWriter(f, keys, restval=0, extrasaction='ignore')\<close>:
  \<^verbatim>\<open>rowdict.get(key, restval)\<close> for each field name.
\<close>

definition dict_to_list :: "string list \<Rightarrow> pydict \<Rightarrow> pyval list" where
  "dict_to_list fieldnames rowdict =
     map (\<lambda>key. case map_of rowdict key of None \<Rightarrow> VInt 0 | Some v \<Rightarrow> v) fieldnames"

text \<open>
  The combined file: the header row and the data rows, as lists of cells. The writer
  holds the list object \<open>keys\<close> itself, so that \<^verbatim>\<open>keys.insert(0, 'Date')\<close>, made after
  the writer is built, also puts \<^verbatim>\<open>'Date'\<close> first among its field names.
\<close>

definition write_combined :: "string list \<Rightarrow> pydict list \<Rightarrow> string list \<times> pyval list list" where
  "write_combined keys records =
     (let keys' = ''Date'' # keys
      in (keys', map (dict_to_list keys') records))"

text \<open>
  The options of \<^verbatim>\<open>main\<close> that reach the combined file: \<^verbatim>\<open>--file\<close>, \<^verbatim>\<open>--all\<close>
  and \<^verbatim>\<open>--fixup-date\<close>.
\<close>

record options =
  opt_filename :: "string option"
  opt_all :: bool
  opt_fixupDate :: bool

text \<open>
  \<^verbatim>\<open>main\<close>, up to the combined file: \<open>f\<close> is the content of the input. The result is
  the exception that ends the run, or the combined file when a file name is given
  (\<^verbatim>\<open>if None or filename\<close>) and \<open>None\<close> when the input is the standard input. The
  files of the single counters, written afterwards from the same \<open>keys\<close> and
  \<open>records\<close>, are not part of the model.
\<close>

definition main ::
  "(string \<Rightarrow> error + string) \<Rightarrow> string list \<Rightarrow> options \<Rightarrow> string list \<Rightarrow>
   error + (string list \<times> pyval list list) option" where
  "main strptime_iso blacklist opts f =
     (case load strptime_iso blacklist (opt_fixupDate opts) f of
        Inl err \<Rightarrow> Inl err
      | Inr (keys, records) \<Rightarrow>
         (let PurgeDups = \<not> opt_all opts
          in case (if PurgeDups then purge records keys [] else Inr keys) of
               Inl err \<Rightarrow> Inl err
             | Inr keys \<Rightarrow>
                 (case opt_filename opts of
                    None \<Rightarrow> Inr None
                  | Some filename \<Rightarrow> Inr (Some (write_combined keys records)))))"

section \<open>Notions used to state the properties\<close>

text \<open>
  \<^verbatim>\<open>x[0]\<close> for \<^verbatim>\<open>x = element.split(':')\<close>: the name of a field. \<open>split\<close> never yields
  the empty list, so the head exists.
\<close>

definition field_name :: "string \<Rightarrow> string" where
  "field_name element = hd (split (CHR '':'') element)"

text \<open>
  The names under which the loop of \<^verbatim>\<open>parse_line\<close> stores a value: the names of the
  elements other than \<^verbatim>\<open>'\n'\<close> that are not in the blacklist.
\<close>

definition stored_names :: "string list \<Rightarrow> string list \<Rightarrow> string list" where
  "stored_names blacklist elements =
     filter (\<lambda>name. name \<notin> set blacklist)
       (map field_name (filter (\<lambda>element. element \<noteq> [CHR 0x0A]) elements))"

text \<open>
  A key varies when two records both have it, with different values; it occurs when some
  record has it.
\<close>

definition varies :: "pydict list \<Rightarrow> string \<Rightarrow> bool" where
  "varies records key \<longleftrightarrow>
     (\<exists>r1 \<in> set records. \<exists>r2 \<in> set records.
        map_of r1 key \<noteq> None \<and> map_of r2 key \<noteq> None \<and> map_of r1 key \<noteq> map_of r2 key)"

definition occurs :: "pydict list \<Rightarrow> string \<Rightarrow> bool" where
  "occurs records key \<longleftrightarrow> (\<exists>r \<in> set records. key \<in> fst ` set r)"

section \<open>Lemmas: strings\<close>

lemma strip_plain:
  assumes "s \<noteq> []" and "\<not> isspace_char (hd s)" and "\<not> isspace_char (last s)"
  shows "strip s = s"
proof -
  from assms have a: "dropWhile isspace_char s = s"
    by (cases s) simp_all
  from assms have "rev s \<noteq> []" and "\<not> isspace_char (hd (rev s))"
    by (simp_all add: hd_rev)
  then have "dropWhile isspace_char (rev s) = rev s"
    by (cases "rev s") simp_all
  with a show ?thesis by (simp add: strip_def)
qed

lemma split_num_takeWhile:
  "split_num num s =
     (num @ takeWhile (\<lambda>c. isdigit_char c \<or> c = CHR ''.'') s,
      dropWhile (\<lambda>c. isdigit_char c \<or> c = CHR ''.'') s)"
  by (induction s arbitrary: num) simp_all

section \<open>Lemmas: the prefix table\<close>

lemma fold_update_other:
  "k \<notin> set rest \<Longrightarrow>
   map_of (fold (\<lambda>(i, s). AList.update s (f i)) (enumerate n rest) p) k = map_of p k"
  by (induction rest arbitrary: n p) (auto simp: update_conv')

lemma fold_update_nth:
  "distinct rest \<Longrightarrow> j < length rest \<Longrightarrow>
   map_of (fold (\<lambda>(i, s). AList.update s (f i)) (enumerate n rest) p) (rest ! j) = Some (f (n + j))"
proof (induction rest arbitrary: n p j)
  case Nil
  then show ?case by simp
next
  case (Cons r rs)
  show ?case
  proof (cases j)
    case 0
    with Cons.prems show ?thesis
      by (simp add: fold_update_other update_conv')
  next
    case (Suc j')
    with Cons.prems Cons.IH [of j' "Suc n"] show ?thesis
      by simp
  qed
qed

lemma prefix_table_nth:
  assumes "distinct sset" and "i < length sset"
  shows "\<exists>prefix. prefix_table sset = Inr prefix \<and> map_of prefix (sset ! i) = Some (2 ^ (10 * i))"
proof (cases sset)
  case Nil
  with assms show ?thesis by simp
next
  case (Cons s0 rest)
  show ?thesis
  proof (cases i)
    case 0
    with Cons assms show ?thesis
      by (simp add: prefix_table_def fold_update_other)
  next
    case (Suc j)
    with Cons assms fold_update_nth [of rest j "\<lambda>i. (2::nat) ^ ((i + 1) * 10)" 0 "[(s0, 1)]"] show ?thesis
      by (simp add: prefix_table_def mult.commute)
  qed
qed

lemma prefix_table_absent:
  assumes "prefix_table sset = Inr prefix" and "k \<notin> set sset"
  shows "map_of prefix k = None"
  using assms by (cases sset) (auto simp: prefix_table_def fold_update_other)


section \<open>Lemmas: floats\<close>

lemmas float_ev = float_round_def round_half_even_def bit_length.simps Let_def

lemma upper_k: "upper ''k'' = ''K''"
  by (simp add: upper_def upper_char_def)

lemma float_mul_Finite:
  "float_round p 1 = Finite m2 e2 \<Longrightarrow>
   float_mul (Finite m1 e1) p =
     Inr (float_round (m1 * m2 * 2 ^ nat (e1 + e2)) (2 ^ nat (- (e1 + e2))))"
  by (simp add: float_mul_def)

lemma py_int_Finite: "py_int (Finite m e) = Inr (int (m * 2 ^ nat e div 2 ^ nat (- e)))"
  by (simp add: py_int_def)

lemma below_nine: "i < 9 \<Longrightarrow> i \<in> set [0, 1, 2, 3, 4, 5, 6, 7, 8 :: nat]"
  by (simp, arith)

lemma float_round_pow_all:
  "list_all (\<lambda>i. float_round (2 ^ (10 * i)) 1 = Finite (2 ^ 52) (10 * int i - 52))
     [0, 1, 2, 3, 4, 5, 6, 7, 8]"
  by (simp only: list.pred_inject) (simp add: float_ev)

lemma float_round_pow:
  "i < 9 \<Longrightarrow> float_round (2 ^ (10 * i)) 1 = Finite (2 ^ 52) (10 * int i - 52)"
  using float_round_pow_all below_nine unfolding list_all_iff by blast

lemma float_round_one_times_all:
  "list_all (\<lambda>i. float_round (2 ^ 52 * 2 ^ 52 * 2 ^ nat (- 52 + (10 * int i - 52)))
       (2 ^ nat (- (- 52 + (10 * int i - 52)))) = Finite (2 ^ 52) (10 * int i - 52))
     [0, 1, 2, 3, 4, 5, 6, 7, 8]"
  by (simp only: list.pred_inject) (simp add: float_ev)

lemma float_round_one_times:
  "i < 9 \<Longrightarrow>
   float_round (2 ^ 52 * 2 ^ 52 * 2 ^ nat (- 52 + (10 * int i - 52)))
     (2 ^ nat (- (- 52 + (10 * int i - 52)))) = Finite (2 ^ 52) (10 * int i - 52)"
  using float_round_one_times_all below_nine unfolding list_all_iff by blast

lemma py_int_pow_all:
  "list_all (\<lambda>i. py_int (Finite (2 ^ 52) (10 * int i - 52)) = Inr (2 ^ (10 * i)))
     [0, 1, 2, 3, 4, 5, 6, 7, 8]"
  by (simp only: list.pred_inject) (simp add: py_int_Finite)

lemma py_int_pow:
  "i < 9 \<Longrightarrow> py_int (Finite (2 ^ 52) (10 * int i - 52)) = Inr (2 ^ (10 * i))"
  using py_int_pow_all below_nine unfolding list_all_iff by blast

lemma py_float_one: "py_float ''1'' = Inr (Finite (2 ^ 52) (- 52))"
  by (simp add: py_float_def isdigit_char_def decimal_def digit_val_def float_ev)

lemma one_times_prefix:
  assumes "i < 9"
  shows "(case float_mul (Finite (2 ^ 52) (- 52)) (2 ^ (10 * i)) of
            Inl err \<Rightarrow> Inl err | Inr x \<Rightarrow> py_int x) = Inr (2 ^ (10 * i))"
  by (simp only: float_mul_Finite [OF float_round_pow [OF assms]]
      float_round_one_times [OF assms] py_int_pow [OF assms] sum.case)


section \<open>Lemmas: the decoder\<close>

lemma human2bytes_digits:
  "isdigit (strip s0) \<Longrightarrow> human2bytes s0 = Inr (int (decimal (strip s0)))"
  by (simp add: human2bytes_def human2bytes_items_def)

lemma human2bytes_items_float_err:
  assumes "\<not> isdigit (strip s0)" and "split_num [] (strip s0) = (num, rest)"
    and "py_float num = Inl err"
  shows "human2bytes_items items s0 = Inl err"
  using assms by (simp add: human2bytes_items_def)

lemma human2bytes_items_search:
  assumes "\<not> isdigit (strip s0)" and "split_num [] (strip s0) = (num, rest)"
    and "py_float num = Inr x"
  shows "human2bytes_items items s0 =
     (case search_symbol items (strip rest) (strip s0) of
        Inl err \<Rightarrow> Inl err
      | Inr (sset, letter) \<Rightarrow> scale x sset letter)"
  using assms by (simp add: human2bytes_items_def)

lemma SYMBOLS_plain:
  "\<forall>(name, sset) \<in> set SYMBOLS. distinct sset \<and> length sset = 9 \<and>
     (\<forall>s \<in> set sset. s \<noteq> [] \<and> \<not> isspace_char (hd s) \<and> \<not> isspace_char (last s) \<and>
        \<not> isdigit_char (hd s) \<and> hd s \<noteq> CHR ''.'')"
  by (simp add: SYMBOLS_def isspace_char_def isdigit_char_def)

lemma SYMBOLS_rank:
  "\<forall>(name, sset) \<in> set SYMBOLS. \<forall>(i, s) \<in> set (enumerate 0 sset).
     map_of (zip ''BKMGTPEZYbkmgtpeziy'' [0, 1, 2, 3, 4, 5, 6, 7, 8, 0, 1, 2, 3, 4, 5, 6, 7, 8, 8])
       (hd s) = Some i"
  by (simp add: SYMBOLS_def)

lemma SYMBOLS_index_agree:
  assumes "(n1, s1) \<in> set SYMBOLS" and "(n2, s2) \<in> set SYMBOLS"
    and "i < length s1" and "j < length s2" and "s1 ! i = s2 ! j"
  shows "i = j"
proof -
  from assms(3) have "(i, s1 ! i) \<in> set (enumerate 0 s1)"
    by (simp add: in_set_enumerate_eq)
  with assms(1) SYMBOLS_rank have a:
    "map_of (zip ''BKMGTPEZYbkmgtpeziy'' [0, 1, 2, 3, 4, 5, 6, 7, 8, 0, 1, 2, 3, 4, 5, 6, 7, 8, 8])
       (hd (s1 ! i)) = Some i"
    by fastforce
  from assms(4) have "(j, s2 ! j) \<in> set (enumerate 0 s2)"
    by (simp add: in_set_enumerate_eq)
  with assms(2) SYMBOLS_rank have
    "map_of (zip ''BKMGTPEZYbkmgtpeziy'' [0, 1, 2, 3, 4, 5, 6, 7, 8, 0, 1, 2, 3, 4, 5, 6, 7, 8, 8])
       (hd (s2 ! j)) = Some j"
    by fastforce
  with a assms(5) show ?thesis by simp
qed


lemma scale_one_unit:
  assumes "(name, sset) \<in> set SYMBOLS" and "i < length sset"
    and "(name', sset') \<in> set SYMBOLS" and "sset ! i \<in> set sset'"
  shows "scale (Finite (2 ^ 52) (- 52)) sset' (sset ! i) = Inr (2 ^ (10 * i))"
proof -
  from assms(4) obtain j where j: "j < length sset'" "sset' ! j = sset ! i"
    by (auto simp: in_set_conv_nth)
  with assms have "i = j"
    using SYMBOLS_index_agree by metis
  from assms(3) SYMBOLS_plain have "distinct sset'" and "length sset' = 9"
    by auto
  with j \<open>i = j\<close> prefix_table_nth [of sset' j] obtain prefix where
    "prefix_table sset' = Inr prefix" "map_of prefix (sset ! i) = Some (2 ^ (10 * i))" "i < 9"
    by auto
  then show ?thesis
    by (simp only: scale_def sum.case option.case one_times_prefix)
qed

lemma find_Some_member:
  assumes "find P xs = Some y"
  shows "y \<in> set xs \<and> P y"
  using assms by (auto simp: find_Some_iff)

lemma human2bytes_items_one_unit:
  assumes "set items = set SYMBOLS" and "(name, sset) \<in> set SYMBOLS" and "i < length sset"
  shows "human2bytes_items items (''1'' @ sset ! i) = Inr (2 ^ (10 * i))"
proof -
  define s where "s = sset ! i"
  from assms(2) SYMBOLS_plain have
    "\<forall>s \<in> set sset. s \<noteq> [] \<and> \<not> isspace_char (hd s) \<and> \<not> isspace_char (last s) \<and>
       \<not> isdigit_char (hd s) \<and> hd s \<noteq> CHR ''.''"
    by fastforce
  moreover from assms(3) have "s \<in> set sset"
    by (simp add: s_def)
  ultimately have plain: "s \<noteq> []" "\<not> isspace_char (hd s)"
    "\<not> isspace_char (last s)" "\<not> isdigit_char (hd s)" "hd s \<noteq> CHR ''.''"
    by blast+
  have strip1: "strip (''1'' @ s) = ''1'' @ s"
    using plain by (intro strip_plain) (simp_all add: isspace_char_def)
  have nodigit: "\<not> isdigit (''1'' @ s)"
    using plain by (cases s) (simp_all add: isdigit_def)
  have num: "split_num [] (''1'' @ s) = (''1'', s)"
    using plain by (cases s) (simp_all add: isdigit_char_def)
  have strip2: "strip s = s"
    using plain by (intro strip_plain)
  from assms have "(name, sset) \<in> set items" and "s \<in> set sset"
    by (simp_all add: s_def)
  then have "find (\<lambda>(name, sset). s \<in> set sset) items \<noteq> None"
    by (auto simp: find_None_iff)
  then obtain name' sset' where y:
    "find (\<lambda>(name, sset). s \<in> set sset) items = Some (name', sset')"
    by auto
  from find_Some_member [OF y] assms(1) have "(name', sset') \<in> set SYMBOLS" and "s \<in> set sset'"
    by auto
  with assms(2,3) have "scale (Finite (2 ^ 52) (- 52)) sset' s = Inr (2 ^ (10 * i))"
    unfolding s_def by (rule scale_one_unit)
  moreover have "search_symbol items s (''1'' @ s) = Inr (sset', s)"
    using y by (simp add: search_symbol_def)
  ultimately show ?thesis
    using human2bytes_items_search [of "''1'' @ s" "''1''" s "Finite (2 ^ 52) (- 52)" items]
      strip1 strip2 nodigit num py_float_one
    by (simp add: s_def)
qed

lemma human2bytes_one_unit:
  assumes "(name, sset) \<in> set SYMBOLS" and "i < length sset"
  shows "human2bytes (''1'' @ sset ! i) = Inr (2 ^ (10 * i))"
  unfolding human2bytes_def using assms by (intro human2bytes_items_one_unit) simp_all


lemma human2bytes_eval:
  assumes "strip s0 = s" and "\<not> isdigit s" and "split_num [] s = (num, rest)"
    and "py_float num = Inr x" and "strip rest = letter"
    and "find (\<lambda>(name, sset). letter \<in> set sset) SYMBOLS = Some (name, sset)"
    and "prefix_table sset = Inr prefix" and "map_of prefix letter = Some p"
    and "float_mul x p = Inr y"
  shows "human2bytes s0 = py_int y"
  using assms
  by (simp add: human2bytes_def human2bytes_items_search [of s0 num rest x]
      search_symbol_def scale_def)

lemmas str_ev = strip_def isspace_char_def isdigit_def isdigit_char_def decimal_def digit_val_def

lemma human2bytes_0: "human2bytes ''0'' = Inr 0"
  by (simp add: human2bytes_digits str_ev)

lemma human2bytes_1024B: "human2bytes ''1024B'' = Inr 1024"
proof -
  have o: "float_round 1 1 = Finite 4503599627370496 (- 52)"
    by (simp add: float_ev)
  have "human2bytes ''1024B'' = py_int (Finite 4503599627370496 (- 42))"
  proof (rule human2bytes_eval)
    show "strip ''1024B'' = ''1024B''" by (simp add: str_ev)
    show "\<not> isdigit ''1024B''" by (simp add: str_ev)
    show "split_num [] ''1024B'' = (''1024'', ''B'')" by (simp add: str_ev)
    show "py_float ''1024'' = Inr (Finite 4503599627370496 (- 42))"
      by (simp add: py_float_def str_ev float_ev)
    show "strip ''B'' = ''B''" by (simp add: str_ev)
    show "find (\<lambda>(name, sset). ''B'' \<in> set sset) SYMBOLS =
        Some (''customary'', [''B'', ''KB'', ''MB'', ''GB'', ''TB'', ''PB'', ''EB'', ''ZB'', ''YB''])"
      by (simp add: SYMBOLS_def)
    show "prefix_table [''B'', ''KB'', ''MB'', ''GB'', ''TB'', ''PB'', ''EB'', ''ZB'', ''YB''] =
        Inr [(''B'', 1), (''KB'', 2 ^ 10), (''MB'', 2 ^ 20), (''GB'', 2 ^ 30), (''TB'', 2 ^ 40),
             (''PB'', 2 ^ 50), (''EB'', 2 ^ 60), (''ZB'', 2 ^ 70), (''YB'', 2 ^ 80)]"
      by (simp add: prefix_table_def)
    show "map_of [(''B'', 1), (''KB'', 2 ^ 10), (''MB'', 2 ^ 20), (''GB'', 2 ^ 30), (''TB'', 2 ^ 40),
             (''PB'', 2 ^ 50), (''EB'', 2 ^ 60), (''ZB'', 2 ^ 70), (''YB'', 2 ^ 80)] ''B'' = Some (1::nat)"
      by simp
    show "float_mul (Finite 4503599627370496 (- 42)) 1 = Inr (Finite 4503599627370496 (- 42))"
      by (simp only: float_mul_Finite [OF o]) (simp add: float_ev)
  qed
  then show ?thesis by (simp add: py_int_Finite)
qed

lemma human2bytes_1_5K: "human2bytes ''1.5K'' = Inr 1536"
proof -
  have k: "float_round 1024 1 = Finite 4503599627370496 (- 42)"
    by (simp add: float_ev)
  have "human2bytes ''1.5K'' = py_int (Finite 6755399441055744 (- 42))"
  proof (rule human2bytes_eval)
    show "strip ''1.5K'' = ''1.5K''" by (simp add: str_ev)
    show "\<not> isdigit ''1.5K''" by (simp add: str_ev)
    show "split_num [] ''1.5K'' = (''1.5'', ''K'')" by (simp add: str_ev)
    show "py_float ''1.5'' = Inr (Finite 6755399441055744 (- 52))"
      by (simp add: py_float_def str_ev float_ev)
    show "strip ''K'' = ''K''" by (simp add: str_ev)
    show "find (\<lambda>(name, sset). ''K'' \<in> set sset) SYMBOLS =
        Some (''customary_short'', [''B'', ''K'', ''M'', ''G'', ''T'', ''P'', ''E'', ''Z'', ''Y''])"
      by (simp add: SYMBOLS_def)
    show "prefix_table [''B'', ''K'', ''M'', ''G'', ''T'', ''P'', ''E'', ''Z'', ''Y''] =
        Inr [(''B'', 1), (''K'', 2 ^ 10), (''M'', 2 ^ 20), (''G'', 2 ^ 30), (''T'', 2 ^ 40),
             (''P'', 2 ^ 50), (''E'', 2 ^ 60), (''Z'', 2 ^ 70), (''Y'', 2 ^ 80)]"
      by (simp add: prefix_table_def)
    show "map_of [(''B'', 1), (''K'', 2 ^ 10), (''M'', 2 ^ 20), (''G'', 2 ^ 30), (''T'', 2 ^ 40),
             (''P'', 2 ^ 50), (''E'', 2 ^ 60), (''Z'', 2 ^ 70), (''Y'', 2 ^ 80)] ''K'' = Some (1024::nat)"
      by simp
    show "float_mul (Finite 6755399441055744 (- 52)) 1024 = Inr (Finite 6755399441055744 (- 42))"
      by (simp only: float_mul_Finite [OF k]) (simp add: float_ev)
  qed
  then show ?thesis by (simp add: py_int_Finite)
qed

section \<open>The claims about the size decoder\<close>

text \<open>
  C7. For every unit system of \<^verbatim>\<open>SYMBOLS\<close> and every suffix \<open>s\<close> at the zero-based
  index \<open>i\<close> of its list, \<^verbatim>\<open>human2bytes("1" + s)\<close> is \<open>2 ^ (10 * i)\<close>; and
  \<^verbatim>\<open>"0"\<close> decodes to 0, \<^verbatim>\<open>"1024B"\<close> to 1024, \<^verbatim>\<open>"1K"\<close> to 1024, \<^verbatim>\<open>"1M"\<close> to
  1048576 and \<^verbatim>\<open>"1.5K"\<close> to 1536.
\<close>

theorem human2bytes_binary_multiplier:
  "(\<forall>(name, sset) \<in> set SYMBOLS. \<forall>i < length sset.
      human2bytes (''1'' @ sset ! i) = Inr (2 ^ (10 * i))) \<and>
   human2bytes ''0'' = Inr 0 \<and>
   human2bytes ''1024B'' = Inr 1024 \<and>
   human2bytes ''1K'' = Inr 1024 \<and>
   human2bytes ''1M'' = Inr 1048576 \<and>
   human2bytes ''1.5K'' = Inr 1536"
proof -
  have short: "(''customary_short'', [''B'', ''K'', ''M'', ''G'', ''T'', ''P'', ''E'', ''Z'', ''Y''])
      \<in> set SYMBOLS"
    by (simp add: SYMBOLS_def)
  have "human2bytes ''1K'' = Inr 1024"
    using human2bytes_one_unit [OF short, of 1] by simp
  moreover have "human2bytes ''1M'' = Inr 1048576"
    using human2bytes_one_unit [OF short, of 2] by simp
  moreover have "\<forall>(name, sset) \<in> set SYMBOLS. \<forall>i < length sset.
      human2bytes (''1'' @ sset ! i) = Inr (2 ^ (10 * i))"
    using human2bytes_one_unit by blast
  ultimately show ?thesis
    using human2bytes_0 human2bytes_1024B human2bytes_1_5K by blast
qed

theorem human2bytes_binary_multiplier_witness:
  "(''iec'', [''Bi'', ''Ki'', ''Mi'', ''Gi'', ''Ti'', ''Pi'', ''Ei'', ''Zi'', ''Yi'']) \<in> set SYMBOLS \<and>
   (3::nat) < length [''Bi'', ''Ki'', ''Mi'', ''Gi'', ''Ti'', ''Pi'', ''Ei'', ''Zi'', ''Yi''] \<and>
   human2bytes ''1Gi'' = Inr 1073741824"
proof -
  have m: "(''iec'', [''Bi'', ''Ki'', ''Mi'', ''Gi'', ''Ti'', ''Pi'', ''Ei'', ''Zi'', ''Yi''])
      \<in> set SYMBOLS"
    by (simp add: SYMBOLS_def)
  from human2bytes_binary_multiplier have
    "\<forall>(name, sset) \<in> set SYMBOLS. \<forall>i < length sset.
      human2bytes (''1'' @ sset ! i) = Inr (2 ^ (10 * i))"
    by blast
  with m have "\<forall>i < length [''Bi'', ''Ki'', ''Mi'', ''Gi'', ''Ti'', ''Pi'', ''Ei'', ''Zi'', ''Yi''].
      human2bytes (''1'' @ [''Bi'', ''Ki'', ''Mi'', ''Gi'', ''Ti'', ''Pi'', ''Ei'', ''Zi'', ''Yi''] ! i)
        = Inr (2 ^ (10 * i))"
    by blast
  then have "(3::nat) < length [''Bi'', ''Ki'', ''Mi'', ''Gi'', ''Ti'', ''Pi'', ''Ei'', ''Zi'', ''Yi''] \<longrightarrow>
      human2bytes (''1'' @ [''Bi'', ''Ki'', ''Mi'', ''Gi'', ''Ti'', ''Pi'', ''Ei'', ''Zi'', ''Yi''] ! 3)
        = Inr (2 ^ (10 * 3))"
    by (rule spec)
  with m show ?thesis by simp
qed

text \<open>
  C4. The claim: a lone \<^verbatim>\<open>k\<close> is the kilo suffix, so that \<^verbatim>\<open>"2k"\<close> decodes to 2048.
  The code takes the set \<^verbatim>\<open>SYMBOLS['customary']\<close> for it, whose kilo suffix is
  \<^verbatim>\<open>KB\<close>, and looks \<^verbatim>\<open>K\<close> up in the prefix table of that set: a \<^verbatim>\<open>KeyError\<close>.
\<close>

theorem human2bytes_lone_k_fails: "human2bytes ''2k'' = Inl (KeyError ''K'')"
proof -
  have a: "\<not> isdigit (strip ''2k'')" by (simp add: str_ev)
  have b: "split_num [] (strip ''2k'') = (''2'', ''k'')" by (simp add: str_ev)
  have c: "py_float ''2'' = Inr (Finite 4503599627370496 (- 51))"
    by (simp add: py_float_def str_ev float_ev)
  have d: "search_symbol SYMBOLS (strip ''k'') (strip ''2k'') =
      Inr ([''B'', ''KB'', ''MB'', ''GB'', ''TB'', ''PB'', ''EB'', ''ZB'', ''YB''], ''K'')"
    by (simp add: search_symbol_def SYMBOLS_def str_ev upper_k)
  have e: "prefix_table [''B'', ''KB'', ''MB'', ''GB'', ''TB'', ''PB'', ''EB'', ''ZB'', ''YB''] =
      Inr [(''B'', 1), (''KB'', 2 ^ 10), (''MB'', 2 ^ 20), (''GB'', 2 ^ 30), (''TB'', 2 ^ 40),
           (''PB'', 2 ^ 50), (''EB'', 2 ^ 60), (''ZB'', 2 ^ 70), (''YB'', 2 ^ 80)]"
    by (simp add: prefix_table_def)
  show ?thesis
    unfolding human2bytes_def
    by (simp only: human2bytes_items_search [OF a b c] d sum.case prod.case scale_def e)
      simp
qed


text \<open>
  C9, as the code has it. Let \<open>num\<close> and \<open>rest\<close> be the numeric part and the rest of
  the input stripped of surrounding whitespace. When that stripped input is not all
  digits, \<open>num\<close> is a float literal, and the stripped \<open>rest\<close> is in no suffix list and is
  not the lone \<^verbatim>\<open>k\<close>, decoding fails with \<^verbatim>\<open>ValueError("can't interpret ...")\<close>, which
  carries the stripped input. When \<open>num\<close> is empty, decoding fails with the
  \<^verbatim>\<open>ValueError\<close> of \<^verbatim>\<open>float('')\<close>, which is raised before the suffix is looked at.
\<close>

theorem human2bytes_failure:
  assumes "split_num [] (strip s) = (num, rest)"
  shows "(\<not> isdigit (strip s) \<and> (\<exists>x. py_float num = Inr x) \<and>
          strip rest \<notin> \<Union> (set ` snd ` set SYMBOLS) \<and> strip rest \<noteq> ''k'' \<longrightarrow>
            human2bytes s = Inl (ValueError_cant_interpret (strip s))) \<and>
         (num = [] \<longrightarrow> human2bytes s = Inl (ValueError_float []))"
proof (intro conjI impI)
  assume a: "\<not> isdigit (strip s) \<and> (\<exists>x. py_float num = Inr x) \<and>
          strip rest \<notin> \<Union> (set ` snd ` set SYMBOLS) \<and> strip rest \<noteq> ''k''"
  then obtain x where x: "py_float num = Inr x" by blast
  from a have "find (\<lambda>(name, sset). strip rest \<in> set sset) SYMBOLS = None"
    by (force simp: find_None_iff)
  with a have "search_symbol SYMBOLS (strip rest) (strip s) =
      Inl (ValueError_cant_interpret (strip s))"
    by (simp add: search_symbol_def)
  with a assms x show "human2bytes s = Inl (ValueError_cant_interpret (strip s))"
    by (simp add: human2bytes_def human2bytes_items_search [of s num rest x])
next
  assume e: "num = []"
  with assms have "takeWhile (\<lambda>c. isdigit_char c \<or> c = CHR ''.'') (strip s) = []"
    by (simp add: split_num_takeWhile)
  then have "\<not> isdigit (strip s)"
    by (cases "strip s") (auto simp: isdigit_def split: if_splits)
  moreover have "py_float [] = Inl (ValueError_float [])"
    by (simp add: py_float_def)
  ultimately show "human2bytes s = Inl (ValueError_float [])"
    using assms e
    by (simp add: human2bytes_def human2bytes_items_float_err [of s "[]" rest])
qed

theorem human2bytes_failure_witness:
  "split_num [] (strip ''5xyz'') = (''5'', ''xyz'') \<and> \<not> isdigit (strip ''5xyz'') \<and>
   (\<exists>x. py_float ''5'' = Inr x) \<and> strip ''xyz'' \<notin> \<Union> (set ` snd ` set SYMBOLS) \<and>
   strip ''xyz'' \<noteq> ''k'' \<and>
   human2bytes ''5xyz'' = Inl (ValueError_cant_interpret ''5xyz'') \<and>
   split_num [] (strip ''abc'') = ([], ''abc'') \<and>
   human2bytes ''abc'' = Inl (ValueError_float [])"
proof -
  have a: "split_num [] (strip ''5xyz'') = (''5'', ''xyz'')" by (simp add: str_ev)
  have b: "\<not> isdigit (strip ''5xyz'')" by (simp add: str_ev)
  have c: "\<exists>x. py_float ''5'' = Inr x" by (simp add: py_float_def str_ev)
  have d: "strip ''xyz'' \<notin> \<Union> (set ` snd ` set SYMBOLS)" by (simp add: SYMBOLS_def str_ev)
  have e: "strip ''xyz'' \<noteq> ''k''" by (simp add: str_ev)
  have f: "strip ''5xyz'' = ''5xyz''" by (simp add: str_ev)
  have g: "split_num [] (strip ''abc'') = ([], ''abc'')" by (simp add: str_ev)
  from human2bytes_failure [OF a] b c d e f
  have "human2bytes ''5xyz'' = Inl (ValueError_cant_interpret ''5xyz'')" by simp
  moreover from human2bytes_failure [OF g]
  have "human2bytes ''abc'' = Inl (ValueError_float [])" by simp
  ultimately show ?thesis using a b c d e g by blast
qed

text \<open>
  C9 as stated fails: \<^verbatim>\<open>"1.2.3xyz"\<close> is not all digits and its suffix \<^verbatim>\<open>xyz\<close> is in no
  suffix list and is not \<^verbatim>\<open>k\<close>, yet the error is the one of \<^verbatim>\<open>float("1.2.3")\<close>, which
  does not carry the input.
\<close>

theorem human2bytes_failure_counterexample:
  "\<not> isdigit (strip ''1.2.3xyz'') \<and>
   strip (snd (split_num [] (strip ''1.2.3xyz''))) = ''xyz'' \<and>
   ''xyz'' \<notin> \<Union> (set ` snd ` set SYMBOLS) \<and> ''xyz'' \<noteq> ''k'' \<and>
   human2bytes ''1.2.3xyz'' = Inl (ValueError_float ''1.2.3'') \<and>
   human2bytes ''1.2.3xyz'' \<noteq> Inl (ValueError_cant_interpret ''1.2.3xyz'')"
proof -
  have a: "\<not> isdigit (strip ''1.2.3xyz'')" by (simp add: str_ev)
  have b: "split_num [] (strip ''1.2.3xyz'') = (''1.2.3'', ''xyz'')" by (simp add: str_ev)
  have c: "py_float ''1.2.3'' = Inl (ValueError_float ''1.2.3'')"
    by (simp add: py_float_def str_ev)
  have "human2bytes ''1.2.3xyz'' = Inl (ValueError_float ''1.2.3'')"
    unfolding human2bytes_def using a b c by (rule human2bytes_items_float_err)
  moreover have "strip ''xyz'' = ''xyz''" by (simp add: str_ev)
  moreover have "''xyz'' \<notin> \<Union> (set ` snd ` set SYMBOLS)" by (simp add: SYMBOLS_def)
  ultimately show ?thesis using a b by simp
qed


section \<open>Lemmas: the line parser\<close>

lemma py_int_nonneg: "py_int x = Inr v \<Longrightarrow> 0 \<le> v"
  by (cases x) (auto simp: py_int_def)

lemma scale_nonneg: "scale x sset letter = Inr v \<Longrightarrow> 0 \<le> v"
  by (auto simp: scale_def split: sum.splits option.splits dest: py_int_nonneg)

lemma human2bytes_nonneg:
  assumes "human2bytes s = Inr v"
  shows "0 \<le> v"
proof (cases "isdigit (strip s)")
  case True
  with assms show ?thesis by (simp add: human2bytes_digits)
next
  case False
  obtain num rest where nr: "split_num [] (strip s) = (num, rest)"
    by (cases "split_num [] (strip s)")
  show ?thesis
  proof (cases "py_float num")
    case (Inl err)
    with False nr assms show ?thesis
      by (simp add: human2bytes_def human2bytes_items_float_err [of s num rest])
  next
    case (Inr x)
    with False nr assms show ?thesis
      by (auto simp: human2bytes_def human2bytes_items_search [of s num rest x]
          split: sum.splits dest: scale_nonneg)
  qed
qed

lemma split_not_Nil: "split sep s \<noteq> []"
  by (induction s) (auto split: list.splits)

lemma parse_elements_Cons:
  "parse_elements blacklist (element # rest) data =
     (if element = [CHR 0x0A] \<or> field_name element \<in> set blacklist
      then parse_elements blacklist rest data
      else (case tl (split (CHR '':'') element) of
              [] \<Rightarrow> Inl IndexError
            | x1 # _ \<Rightarrow>
                (case human2bytes x1 of
                   Inl err \<Rightarrow> Inl err
                 | Inr v \<Rightarrow>
                     parse_elements blacklist rest
                       (AList.update (field_name element) (VInt v) data))))"
  using split_not_Nil [of "CHR '':''" element]
  by (cases "split (CHR '':'') element")
    (auto simp: field_name_def split: list.splits sum.splits)

lemma parse_elements_entries:
  assumes "parse_elements blacklist elements data = Inr data'"
  shows "map_of data' k = map_of data k \<or>
    (k \<in> set (stored_names blacklist elements) \<and> (\<exists>n\<ge>0. map_of data' k = Some (VInt n)))"
  using assms
proof (induction elements arbitrary: data)
  case Nil
  then show ?case by simp
next
  case (Cons element rest)
  show ?case
  proof (cases "element = [CHR 0x0A] \<or> field_name element \<in> set blacklist")
    case True
    with Cons.prems have "parse_elements blacklist rest data = Inr data'"
      by (simp only: parse_elements_Cons if_True)
    from Cons.IH [OF this] True show ?thesis
      by (auto simp: stored_names_def)
  next
    case False
    with Cons.prems obtain x1 xs v where v: "human2bytes x1 = Inr v"
      and r: "parse_elements blacklist rest
                (AList.update (field_name element) (VInt v) data) = Inr data'"
      by (simp only: parse_elements_Cons if_False) (auto split: list.splits sum.splits)
    from v have "0 \<le> v" by (rule human2bytes_nonneg)
    with Cons.IH [OF r] False show ?thesis
      by (auto simp: stored_names_def update_conv' split: if_splits)
  qed
qed

lemma parse_elements_distinct:
  assumes "parse_elements blacklist elements data = Inr data'" and "distinct (map fst data)"
  shows "distinct (map fst data')"
  using assms
proof (induction elements arbitrary: data)
  case Nil
  then show ?case by simp
next
  case (Cons element rest)
  show ?case
  proof (cases "element = [CHR 0x0A] \<or> field_name element \<in> set blacklist")
    case True
    with Cons.prems have "parse_elements blacklist rest data = Inr data'"
      by (simp only: parse_elements_Cons if_True)
    with Cons.IH Cons.prems(2) show ?thesis by blast
  next
    case False
    with Cons.prems obtain v where
      r: "parse_elements blacklist rest
            (AList.update (field_name element) (VInt v) data) = Inr data'"
      by (simp only: parse_elements_Cons if_False) (auto split: list.splits sum.splits)
    from Cons.prems(2) have "distinct (map fst (AList.update (field_name element) (VInt v) data))"
      by (simp add: distinct_update)
    with Cons.IH [OF r] show ?thesis .
  qed
qed

text \<open>Elements with a blacklisted name can be taken out of the list: the loop does nothing on them.\<close>

lemma parse_elements_blacklisted:
  "parse_elements blacklist elements data =
   parse_elements blacklist
     (filter (\<lambda>element. element = [CHR 0x0A] \<or> field_name element \<notin> set blacklist) elements) data"
proof (induction elements arbitrary: data)
  case Nil
  then show ?case by simp
next
  case (Cons element rest)
  show ?case
  proof (cases "element = [CHR 0x0A] \<or> field_name element \<notin> set blacklist")
    case True
    then have "filter (\<lambda>element. element = [CHR 0x0A] \<or> field_name element \<notin> set blacklist)
        (element # rest) =
      element # filter (\<lambda>element. element = [CHR 0x0A] \<or> field_name element \<notin> set blacklist) rest"
      by simp
    then show ?thesis
      by (simp only: parse_elements_Cons Cons.IH)
  next
    case False
    then have "filter (\<lambda>element. element = [CHR 0x0A] \<or> field_name element \<notin> set blacklist)
        (element # rest) =
      filter (\<lambda>element. element = [CHR 0x0A] \<or> field_name element \<notin> set blacklist) rest"
      by simp
    with False show ?thesis
      by (simp only: parse_elements_Cons Cons.IH [symmetric]) simp
  qed
qed

lemma one_entry:
  "distinct (map fst xs) \<Longrightarrow> map_of xs k = Some v \<Longrightarrow>
   length (filter (\<lambda>(k', v'). k' = k) xs) = 1"
proof (induction xs)
  case Nil
  then show ?case by simp
next
  case (Cons p ps)
  obtain k' v' where p: "p = (k', v')" by (cases p)
  show ?case
  proof (cases "k' = k")
    case True
    with Cons.prems p have "k \<notin> fst ` set ps" by simp
    then have "filter (\<lambda>(k', v'). k' = k) ps = []"
      by (force simp: filter_empty_conv)
    with True p show ?thesis by simp
  next
    case False
    with Cons p show ?thesis by simp
  qed
qed

text \<open>What \<^verbatim>\<open>parse_line\<close> returns, in terms of the loop.\<close>

lemma parse_line_Inr:
  assumes "parse_line strptime_iso blacklist inline fixupDate = Inr data"
  obtains datestring where
    "(if fixupDate then fixup_date strptime_iso (hd (split (CHR ''|'') inline))
      else Inr (hd (split (CHR ''|'') inline))) = Inr datestring"
    and "parse_elements blacklist (tl (split (CHR ''|'') inline)) [(''Date'', VStr datestring)]
           = Inr data"
  using assms split_not_Nil [of "CHR ''|''" inline]
  by (cases "split (CHR ''|'') inline")
    (auto simp: parse_line_def split: sum.splits if_splits)


lemma human2bytes_1K: "human2bytes ''1K'' = Inr 1024"
proof -
  have "(''customary_short'', [''B'', ''K'', ''M'', ''G'', ''T'', ''P'', ''E'', ''Z'', ''Y''])
      \<in> set SYMBOLS"
    by (simp add: SYMBOLS_def)
  from human2bytes_one_unit [OF this, of 1] show ?thesis by simp
qed

lemma human2bytes_zz: "human2bytes ''zz'' = Inl (ValueError_float [])"
proof -
  have "\<not> isdigit (strip ''zz'')" by (simp add: str_ev)
  moreover have "split_num [] (strip ''zz'') = ([], ''zz'')" by (simp add: str_ev)
  moreover have "py_float [] = Inl (ValueError_float [])" by (simp add: py_float_def)
  ultimately show ?thesis
    unfolding human2bytes_def by (rule human2bytes_items_float_err)
qed

lemmas line_ev = parse_line_def human2bytes_digits str_ev

section \<open>The claims about the line parser\<close>

text \<open>
  C8. A name of the blacklist gets no value in the record: when it is not \<^verbatim>\<open>'Date'\<close> it
  is not a key of the record, and the key \<^verbatim>\<open>'Date'\<close>, which every record has, keeps
  the date string. The value of a blacklisted field is never decoded: the loop passes
  over an element with a blacklisted name whatever follows the name, so that taking all
  such elements out of the line changes neither the record nor the exception.
\<close>

theorem blacklist_checked_before_decoding:
  assumes "name \<in> set blacklist"
  shows "(\<forall>data. parse_line strptime_iso blacklist inline fixupDate = Inr data \<longrightarrow>
            (name \<noteq> ''Date'' \<longrightarrow> map_of data name = None) \<and>
            (\<forall>n. map_of data name \<noteq> Some (VInt n))) \<and>
         (\<forall>element rest data. element \<noteq> [CHR 0x0A] \<and> field_name element = name \<longrightarrow>
            parse_elements blacklist (element # rest) data =
            parse_elements blacklist rest data) \<and>
         (\<forall>elements data.
            parse_elements blacklist elements data =
            parse_elements blacklist
              (filter (\<lambda>element. element = [CHR 0x0A] \<or> field_name element \<notin> set blacklist)
                 elements) data)"
proof (intro conjI allI impI)
  fix data
  assume "parse_line strptime_iso blacklist inline fixupDate = Inr data"
  then obtain datestring where
    p: "parse_elements blacklist (tl (split (CHR ''|'') inline)) [(''Date'', VStr datestring)]
          = Inr data"
    by (rule parse_line_Inr)
  from assms have "name \<notin> set (stored_names blacklist (tl (split (CHR ''|'') inline)))"
    by (simp add: stored_names_def)
  with parse_elements_entries [OF p, of name]
  have m: "map_of data name = map_of [(''Date'', VStr datestring)] name"
    by blast
  then show "map_of data name = None" if "name \<noteq> ''Date''"
    using that by simp
  from m show "map_of data name \<noteq> Some (VInt n)" for n
    by (simp split: if_splits)
next
  fix element rest data
  assume "element \<noteq> [CHR 0x0A] \<and> field_name element = name"
  with assms show "parse_elements blacklist (element # rest) data =
      parse_elements blacklist rest data"
    by (simp only: parse_elements_Cons) simp
next
  fix elements data
  show "parse_elements blacklist elements data =
      parse_elements blacklist
        (filter (\<lambda>element. element = [CHR 0x0A] \<or> field_name element \<notin> set blacklist)
           elements) data"
    by (rule parse_elements_blacklisted)
qed

theorem blacklist_checked_before_decoding_witness:
  "''secret'' \<in> set [''secret''] \<and>
   human2bytes ''zz'' = Inl (ValueError_float []) \<and>
   parse_line Inr [''secret''] ''t|secret:zz|a:1'' False =
     Inr [(''Date'', VStr ''t''), (''a'', VInt 1)] \<and>
   map_of [(''Date'', VStr ''t''), (''a'', VInt 1)] ''secret'' = None \<and>
   ''secret:zz'' \<noteq> [CHR 0x0A] \<and> field_name ''secret:zz'' = ''secret'' \<and>
   parse_elements [''secret''] [''secret:zz'', ''a:1''] [(''Date'', VStr ''t'')] =
     parse_elements [''secret''] [''a:1''] [(''Date'', VStr ''t'')]"
proof -
  have a: "''secret'' \<in> set [''secret'']" by simp
  have b: "parse_line Inr [''secret''] ''t|secret:zz|a:1'' False =
      Inr [(''Date'', VStr ''t''), (''a'', VInt 1)]"
    by (simp add: line_ev)
  have c: "''secret:zz'' \<noteq> [CHR 0x0A] \<and> field_name ''secret:zz'' = ''secret''"
    by (simp add: field_name_def)
  from blacklist_checked_before_decoding [OF a, of Inr "''t|secret:zz|a:1''" False] b c
  have "map_of [(''Date'', VStr ''t''), (''a'', VInt 1)] ''secret'' = None"
    and "parse_elements [''secret''] [''secret:zz'', ''a:1''] [(''Date'', VStr ''t'')] =
     parse_elements [''secret''] [''a:1''] [(''Date'', VStr ''t'')]"
    by blast+
  with a b c human2bytes_zz show ?thesis by blast
qed

text \<open>
  C10, as the code has it. Every record that \<^verbatim>\<open>parse_line\<close> returns has exactly one
  entry \<^verbatim>\<open>'Date'\<close>, and every other entry is a non-negative integer. The value of
  \<^verbatim>\<open>'Date'\<close> is the date string (after the date fix-up when that is asked for)
  whenever the line has no field named \<^verbatim>\<open>Date\<close> outside the blacklist.
\<close>

theorem parse_line_record_invariant:
  assumes "parse_line strptime_iso blacklist inline fixupDate = Inr data"
  shows "length (filter (\<lambda>(k, v). k = ''Date'') data) = 1 \<and>
         (\<forall>(k, v) \<in> set data. k \<noteq> ''Date'' \<longrightarrow> (\<exists>n\<ge>0. v = VInt n)) \<and>
         (''Date'' \<notin> set (stored_names blacklist (tl (split (CHR ''|'') inline))) \<longrightarrow>
            (\<exists>datestring.
               (if fixupDate then fixup_date strptime_iso (hd (split (CHR ''|'') inline))
                else Inr (hd (split (CHR ''|'') inline))) = Inr datestring \<and>
               map_of data ''Date'' = Some (VStr datestring)))"
proof -
  from assms obtain datestring where
    d: "(if fixupDate then fixup_date strptime_iso (hd (split (CHR ''|'') inline))
         else Inr (hd (split (CHR ''|'') inline))) = Inr datestring"
    and p: "parse_elements blacklist (tl (split (CHR ''|'') inline))
              [(''Date'', VStr datestring)] = Inr data"
    by (rule parse_line_Inr)
  from parse_elements_distinct [OF p] have dist: "distinct (map fst data)"
    by simp
  from parse_elements_entries [OF p, of "''Date''"]
  obtain v where "map_of data ''Date'' = Some v"
    by auto
  with dist have one: "length (filter (\<lambda>(k, v). k = ''Date'') data) = 1"
    by (rule one_entry)
  have others: "\<exists>n\<ge>0. v = VInt n" if "(k, v) \<in> set data" and "k \<noteq> ''Date''" for k v
  proof -
    from that(1) dist have "map_of data k = Some v" by simp
    with parse_elements_entries [OF p, of k] that(2) show ?thesis
      by auto
  qed
  have date: "map_of data ''Date'' = Some (VStr datestring)"
    if "''Date'' \<notin> set (stored_names blacklist (tl (split (CHR ''|'') inline)))"
    using parse_elements_entries [OF p, of "''Date''"] that by auto
  from one others date d show ?thesis
    by blast
qed

theorem parse_line_record_invariant_witness:
  "parse_line Inr [] ''2013-04-01T00:00:00|foo:10|bar:1K'' False =
     Inr [(''Date'', VStr ''2013-04-01T00:00:00''), (''foo'', VInt 10), (''bar'', VInt 1024)] \<and>
   ''Date'' \<notin> set (stored_names [] (tl (split (CHR ''|'') ''2013-04-01T00:00:00|foo:10|bar:1K''))) \<and>
   length (filter (\<lambda>(k, v). k = ''Date'')
     [(''Date'', VStr ''2013-04-01T00:00:00''), (''foo'', VInt 10), (''bar'', VInt 1024)]) = 1 \<and>
   map_of [(''Date'', VStr ''2013-04-01T00:00:00''), (''foo'', VInt 10), (''bar'', VInt 1024)]
     ''Date'' = Some (VStr ''2013-04-01T00:00:00'')"
proof -
  have a: "parse_line Inr [] ''2013-04-01T00:00:00|foo:10|bar:1K'' False =
     Inr [(''Date'', VStr ''2013-04-01T00:00:00''), (''foo'', VInt 10), (''bar'', VInt 1024)]"
    by (simp add: line_ev human2bytes_1K)
  have b: "''Date'' \<notin>
      set (stored_names [] (tl (split (CHR ''|'') ''2013-04-01T00:00:00|foo:10|bar:1K'')))"
    by (simp add: stored_names_def field_name_def)
  from parse_line_record_invariant [OF a] b
  have "length (filter (\<lambda>(k, v). k = ''Date'')
     [(''Date'', VStr ''2013-04-01T00:00:00''), (''foo'', VInt 10), (''bar'', VInt 1024)]) = 1"
    and "map_of [(''Date'', VStr ''2013-04-01T00:00:00''), (''foo'', VInt 10), (''bar'', VInt 1024)]
     ''Date'' = Some (VStr ''2013-04-01T00:00:00'')"
    by simp_all
  with a b show ?thesis by blast
qed

text \<open>
  C10 as stated fails on a line with a field named \<^verbatim>\<open>Date\<close>: the decoded value
  of the field takes the place of the date string.
\<close>

theorem parse_line_record_invariant_counterexample:
  "parse_line Inr [] ''2013-04-01T00:00:00|Date:5'' False = Inr [(''Date'', VInt 5)]"
  by (simp add: line_ev)


section \<open>Lemmas: reading the file\<close>

lemmas load_ev = load_def first_line_def readline_def turned_over_def parse_keys_def

lemma load_loop_records:
  assumes "load_loop strptime_iso blacklist fixupDate f (keys, records) = Inr (keys', records')"
  shows "\<exists>new. records' = records @ new \<and>
    map (\<lambda>line. parse_line strptime_iso blacklist line fixupDate)
      (filter (\<lambda>line. \<not> turned_over line) f) = map Inr new"
  using assms
proof (induction f arbitrary: keys records)
  case Nil
  then show ?case by simp
next
  case (Cons line f)
  from Cons.prems obtain rcd where
    p: "parse_line strptime_iso blacklist line fixupDate = Inr rcd"
    by (auto split: sum.splits)
  show ?case
  proof (cases "turned_over line")
    case True
    with Cons.prems p have
      "load_loop strptime_iso blacklist fixupDate f (keys, records) = Inr (keys', records')"
      by simp
    from Cons.IH [OF this] True show ?thesis by simp
  next
    case False
    with Cons.prems p obtain keys2 where
      "load_loop strptime_iso blacklist fixupDate f (keys2, records @ [rcd]) =
         Inr (keys', records')"
      by (auto simp: Let_def split: if_splits)
    from Cons.IH [OF this] obtain new where
      "records' = (records @ [rcd]) @ new"
      "map (\<lambda>line. parse_line strptime_iso blacklist line fixupDate)
        (filter (\<lambda>line. \<not> turned_over line) f) = map Inr new"
      by blast
    with False p show ?thesis
      by (intro exI [of _ "rcd # new"]) simp
  qed
qed

lemma load_loop_total:
  assumes "\<forall>line \<in> set f. \<exists>rcd. parse_line strptime_iso blacklist line fixupDate = Inr rcd"
  shows "\<exists>keys' records'.
    load_loop strptime_iso blacklist fixupDate f (keys, records) = Inr (keys', records')"
  using assms
proof (induction f arbitrary: keys records)
  case Nil
  then show ?case by simp
next
  case (Cons line f)
  then obtain rcd where
    p: "parse_line strptime_iso blacklist line fixupDate = Inr rcd"
    by auto
  from Cons have "\<And>keys records. \<exists>keys' records'.
    load_loop strptime_iso blacklist fixupDate f (keys, records) = Inr (keys', records')"
    by simp
  with p show ?case
    by (simp add: Let_def)
qed

section \<open>Lemmas: the purge\<close>

lemma first_present_Inr:
  "first_present records key i = Inr j \<Longrightarrow>
   i \<le> j \<and> j < length records \<and> key \<in> fst ` set (records ! j) \<and>
   (\<forall>m. i \<le> m \<and> m < j \<longrightarrow> key \<notin> fst ` set (records ! m))"
proof (induction records key i rule: first_present.induct)
  case (1 records key i)
  show ?case
  proof (cases "length records \<le> i")
    case True
    with "1.prems" show ?thesis by (auto simp: first_present.simps)
  next
    case False
    show ?thesis
    proof (cases "key \<in> fst ` set (records ! i)")
      case True
      with False "1.prems" show ?thesis by (auto simp: first_present.simps)
    next
      case absent: False
      with False "1.prems" have "first_present records key (i + 1) = Inr j"
        by (simp add: first_present.simps)
      from "1.IH" [OF False absent this] have a: "i + 1 \<le> j" "j < length records"
        "key \<in> fst ` set (records ! j)"
        and b: "\<And>m. i + 1 \<le> m \<Longrightarrow> m < j \<Longrightarrow> key \<notin> fst ` set (records ! m)"
        by auto
      have "key \<notin> fst ` set (records ! m)" if "i \<le> m" and "m < j" for m
      proof (cases "m = i")
        case True
        with absent show ?thesis by simp
      next
        case False
        with that have "i + 1 \<le> m" by simp
        with b that show ?thesis by simp
      qed
      with a show ?thesis by simp
    qed
  qed
qed

lemma first_present_Inl:
  "first_present records key i = Inl err \<Longrightarrow>
   err = IndexError \<and> (\<forall>m. i \<le> m \<and> m < length records \<longrightarrow> key \<notin> fst ` set (records ! m))"
proof (induction records key i rule: first_present.induct)
  case (1 records key i)
  show ?case
  proof (cases "length records \<le> i")
    case True
    with "1.prems" show ?thesis by (auto simp: first_present.simps)
  next
    case False
    show ?thesis
    proof (cases "key \<in> fst ` set (records ! i)")
      case True
      with False "1.prems" show ?thesis by (auto simp: first_present.simps)
    next
      case absent: False
      with False "1.prems" have "first_present records key (i + 1) = Inl err"
        by (simp add: first_present.simps)
      from "1.IH" [OF False absent this] have a: "err = IndexError"
        and b: "\<And>m. i + 1 \<le> m \<Longrightarrow> m < length records \<Longrightarrow>
          key \<notin> fst ` set (records ! m)"
        by auto
      have "key \<notin> fst ` set (records ! m)" if "i \<le> m" and "m < length records" for m
      proof (cases "m = i")
        case True
        with absent show ?thesis by simp
      next
        case False
        with that have "i + 1 \<le> m" by simp
        with b that show ?thesis by simp
      qed
      with a show ?thesis by simp
    qed
  qed
qed

lemma scan_differs_iff:
  "scan_differs records key v i \<longleftrightarrow>
   (\<exists>m. i \<le> m \<and> m < length records \<and> (\<exists>v'. map_of (records ! m) key = Some v' \<and> v \<noteq> v'))"
proof (induction records key v i rule: scan_differs.induct)
  case (1 records key v i)
  show ?case
  proof (cases "i < length records")
    case False
    then show ?thesis by (simp add: scan_differs.simps)
  next
    case True
    show ?thesis
    proof (cases "map_of (records ! i) key")
      case None
      with True have "scan_differs records key v i = scan_differs records key v (i + 1)"
        by (simp add: scan_differs.simps)
      also from "1.IH"(1) [OF True None] have "\<dots> \<longleftrightarrow>
        (\<exists>m. i + 1 \<le> m \<and> m < length records \<and>
          (\<exists>v'. map_of (records ! m) key = Some v' \<and> v \<noteq> v'))" .
      also from None have "\<dots> \<longleftrightarrow>
        (\<exists>m. i \<le> m \<and> m < length records \<and>
          (\<exists>v'. map_of (records ! m) key = Some v' \<and> v \<noteq> v'))"
        by (metis Suc_eq_plus1 Suc_leD Suc_leI le_neq_implies_less option.distinct(1))
      finally show ?thesis .
    next
      case (Some v')
      show ?thesis
      proof (cases "v = v'")
        case False
        with True Some show ?thesis
          by (auto simp: scan_differs.simps)
      next
        case same: True
        with True Some have "scan_differs records key v i = scan_differs records key v (i + 1)"
          by (simp add: scan_differs.simps)
        also from "1.IH"(2) [OF True Some] same have "\<dots> \<longleftrightarrow>
          (\<exists>m. i + 1 \<le> m \<and> m < length records \<and>
            (\<exists>v'. map_of (records ! m) key = Some v' \<and> v \<noteq> v'))"
          by simp
        also from Some same have "\<dots> \<longleftrightarrow>
          (\<exists>m. i \<le> m \<and> m < length records \<and>
            (\<exists>v'. map_of (records ! m) key = Some v' \<and> v \<noteq> v'))"
          by (metis Suc_eq_plus1 Suc_leD Suc_leI le_neq_implies_less option.inject)
        finally show ?thesis .
      qed
    qed
  qed
qed


lemma first_present_occurs:
  assumes "occurs records key"
  shows "\<exists>i. first_present records key 0 = Inr i"
proof (cases "first_present records key 0")
  case (Inr i)
  then show ?thesis by blast
next
  case (Inl err)
  from first_present_Inl [OF this] have a: "\<forall>m < length records. key \<notin> fst ` set (records ! m)"
    by simp
  from assms obtain r where "r \<in> set records" and k: "key \<in> fst ` set r"
    unfolding occurs_def by blast
  then obtain m where "m < length records" and "records ! m = r"
    unfolding in_set_conv_nth by blast
  with a k show ?thesis by blast
qed

lemma first_present_value:
  assumes "first_present records key 0 = Inr i"
  shows "occurs records key \<and> (\<exists>v. map_of (records ! i) key = Some v)"
proof -
  from first_present_Inr [OF assms] have "i < length records"
    and k: "key \<in> fst ` set (records ! i)"
    by simp_all
  then have "occurs records key"
    unfolding occurs_def using nth_mem by blast
  moreover from k have "map_of (records ! i) key \<noteq> None"
    by (simp add: map_of_eq_None_iff)
  ultimately show ?thesis by auto
qed

lemma scan_differs_varies:
  assumes f: "first_present records key 0 = Inr i"
    and v: "map_of (records ! i) key = Some v"
  shows "scan_differs records key v i \<longleftrightarrow> varies records key"
proof
  assume "scan_differs records key v i"
  then obtain m v' where m: "m < length records" "map_of (records ! m) key = Some v'" "v \<noteq> v'"
    by (auto simp: scan_differs_iff)
  from first_present_Inr [OF f] have "i < length records" by simp
  then have "records ! i \<in> set records" by simp
  moreover from m have "records ! m \<in> set records" by simp
  ultimately show "varies records key"
    unfolding varies_def using v m by force
next
  assume "varies records key"
  then obtain r1 r2 v1 v2 where r: "r1 \<in> set records" "r2 \<in> set records"
    "map_of r1 key = Some v1" "map_of r2 key = Some v2" "v1 \<noteq> v2"
    by (auto simp: varies_def)
  have later: "i \<le> m" if "m < length records" and "map_of (records ! m) key = Some w" for m w
  proof (rule ccontr)
    assume "\<not> i \<le> m"
    with first_present_Inr [OF f] have "key \<notin> fst ` set (records ! m)" by simp
    then have "map_of (records ! m) key = None" by (simp add: map_of_eq_None_iff)
    with that show False by simp
  qed
  from r obtain m1 m2 where m: "m1 < length records" "records ! m1 = r1"
    "m2 < length records" "records ! m2 = r2"
    by (auto simp: in_set_conv_nth)
  with r later have "i \<le> m1" and "i \<le> m2" by blast+
  moreover from r have "v \<noteq> v1 \<or> v \<noteq> v2" by auto
  ultimately show "scan_differs records key v i"
    unfolding scan_differs_iff using m r by blast
qed

lemma purge_set:
  assumes "purge records keys newkeys = Inr result"
  shows "set result = set newkeys \<union> {k \<in> set keys. k \<noteq> ''Date'' \<and> varies records k}"
  using assms
proof (induction keys arbitrary: newkeys)
  case Nil
  then show ?case by simp
next
  case (Cons key keys)
  show ?case
  proof (cases "key = ''Date''")
    case True
    with Cons.prems have "purge records keys newkeys = Inr result" by simp
    from Cons.IH [OF this] True show ?thesis by auto
  next
    case False
    with Cons.prems obtain i where i: "first_present records key 0 = Inr i"
      by (auto split: sum.splits)
    with first_present_value obtain v where v: "map_of (records ! i) key = Some v"
      by blast
    with False i Cons.prems have
      "purge records keys (if scan_differs records key v i then newkeys @ [key] else newkeys)
         = Inr result"
      by simp
    from Cons.IH [OF this] scan_differs_varies [OF i v] False show ?thesis
      by auto
  qed
qed

lemma purge_total:
  assumes "\<forall>k \<in> set keys. k \<noteq> ''Date'' \<longrightarrow> occurs records k"
  shows "\<exists>result. purge records keys newkeys = Inr result"
  using assms
proof (induction keys arbitrary: newkeys)
  case Nil
  then show ?case by simp
next
  case (Cons key keys)
  show ?case
  proof (cases "key = ''Date''")
    case True
    with Cons show ?thesis by simp
  next
    case False
    with Cons.prems have "occurs records key" by simp
    then obtain i where i: "first_present records key 0 = Inr i"
      using first_present_occurs by blast
    with first_present_value obtain v where "map_of (records ! i) key = Some v"
      by blast
    with False i Cons show ?thesis by simp
  qed
qed

lemma purge_absent:
  assumes "key \<in> set keys" and "key \<noteq> ''Date''" and "\<not> occurs records key"
  shows "purge records keys newkeys = Inl IndexError"
  using assms(1)
proof (induction keys arbitrary: newkeys)
  case Nil
  then show ?case by simp
next
  case (Cons k keys)
  show ?case
  proof (cases "k = ''Date''")
    case True
    with Cons assms(2) show ?thesis by auto
  next
    case False
    show ?thesis
    proof (cases "first_present records k 0")
      case (Inl err)
      with first_present_Inl [OF Inl] False show ?thesis by simp
    next
      case (Inr i)
      with first_present_value obtain v where
        v: "occurs records k" "map_of (records ! i) k = Some v"
        by blast
      with assms(3) have "k \<noteq> key" by auto
      with Cons have "\<And>newkeys. purge records keys newkeys = Inl IndexError" by simp
      with False Inr v show ?thesis by simp
    qed
  qed
qed

section \<open>The claims about the purge of unchanging keys\<close>

text \<open>
  C5. The purge keeps exactly the keys that vary. When every key of \<open>keys\<close> other
  than \<^verbatim>\<open>'Date'\<close> occurs in some record, the purge returns; and whenever it returns, a
  key of \<open>keys\<close> other than \<^verbatim>\<open>'Date'\<close> is among the keys kept if and only if two
  records both have the key, with different values. On the records
  \<^verbatim>\<open>[{a:1,b:5},{a:1,b:6},{a:1,b:5}]\<close> the key \<^verbatim>\<open>a\<close> is dropped and \<^verbatim>\<open>b\<close> is kept.
\<close>

theorem purge_keeps_varying_keys:
  "((\<forall>key \<in> set keys. key \<noteq> ''Date'' \<longrightarrow> occurs records key) \<longrightarrow>
      (\<exists>result. purge records keys [] = Inr result)) \<and>
   (\<forall>result. purge records keys [] = Inr result \<longrightarrow>
      (\<forall>key \<in> set keys. key \<noteq> ''Date'' \<longrightarrow> (key \<in> set result \<longleftrightarrow> varies records key))) \<and>
   purge [[(''a'', VInt 1), (''b'', VInt 5)], [(''a'', VInt 1), (''b'', VInt 6)],
          [(''a'', VInt 1), (''b'', VInt 5)]] [''a'', ''b''] [] = Inr [''b'']"
proof (intro conjI allI impI ballI)
  assume "\<forall>key \<in> set keys. key \<noteq> ''Date'' \<longrightarrow> occurs records key"
  then show "\<exists>result. purge records keys [] = Inr result"
    by (rule purge_total)
next
  fix result key
  assume "purge records keys [] = Inr result" and "key \<in> set keys" and "key \<noteq> ''Date''"
  with purge_set [of records keys "[]" result]
  show "key \<in> set result \<longleftrightarrow> varies records key"
    by auto
next
  show "purge [[(''a'', VInt 1), (''b'', VInt 5)], [(''a'', VInt 1), (''b'', VInt 6)],
          [(''a'', VInt 1), (''b'', VInt 5)]] [''a'', ''b''] [] = Inr [''b'']"
    by (simp add: first_present.simps scan_differs.simps)
qed

theorem purge_keeps_varying_keys_witness:
  "occurs [[(''Date'', VStr ''t2''), (''a'', VInt 1), (''b'', VInt 5)],
           [(''Date'', VStr ''t3''), (''a'', VInt 1)],
           [(''Date'', VStr ''t4''), (''a'', VInt 1), (''b'', VInt 6)]] ''a'' \<and>
   occurs [[(''Date'', VStr ''t2''), (''a'', VInt 1), (''b'', VInt 5)],
           [(''Date'', VStr ''t3''), (''a'', VInt 1)],
           [(''Date'', VStr ''t4''), (''a'', VInt 1), (''b'', VInt 6)]] ''b'' \<and>
   purge [[(''Date'', VStr ''t2''), (''a'', VInt 1), (''b'', VInt 5)],
          [(''Date'', VStr ''t3''), (''a'', VInt 1)],
          [(''Date'', VStr ''t4''), (''a'', VInt 1), (''b'', VInt 6)]]
     [''Date'', ''a'', ''b''] [] = Inr [''b''] \<and>
   varies [[(''Date'', VStr ''t2''), (''a'', VInt 1), (''b'', VInt 5)],
           [(''Date'', VStr ''t3''), (''a'', VInt 1)],
           [(''Date'', VStr ''t4''), (''a'', VInt 1), (''b'', VInt 6)]] ''b'' \<and>
   \<not> varies [[(''Date'', VStr ''t2''), (''a'', VInt 1), (''b'', VInt 5)],
           [(''Date'', VStr ''t3''), (''a'', VInt 1)],
           [(''Date'', VStr ''t4''), (''a'', VInt 1), (''b'', VInt 6)]] ''a''"
proof -
  have o: "\<forall>key \<in> set [''Date'', ''a'', ''b''].
      key \<noteq> ''Date'' \<longrightarrow>
      occurs [[(''Date'', VStr ''t2''), (''a'', VInt 1), (''b'', VInt 5)],
              [(''Date'', VStr ''t3''), (''a'', VInt 1)],
              [(''Date'', VStr ''t4''), (''a'', VInt 1), (''b'', VInt 6)]] key"
    by (simp add: occurs_def)
  have p: "purge [[(''Date'', VStr ''t2''), (''a'', VInt 1), (''b'', VInt 5)],
          [(''Date'', VStr ''t3''), (''a'', VInt 1)],
          [(''Date'', VStr ''t4''), (''a'', VInt 1), (''b'', VInt 6)]]
     [''Date'', ''a'', ''b''] [] = Inr [''b'']"
    by (simp add: first_present.simps scan_differs.simps)
  from purge_keeps_varying_keys
    [of "[''Date'', ''a'', ''b'']"
        "[[(''Date'', VStr ''t2''), (''a'', VInt 1), (''b'', VInt 5)],
          [(''Date'', VStr ''t3''), (''a'', VInt 1)],
          [(''Date'', VStr ''t4''), (''a'', VInt 1), (''b'', VInt 6)]]"] p
  have "\<forall>key \<in> set [''Date'', ''a'', ''b'']. key \<noteq> ''Date'' \<longrightarrow>
      (key \<in> set [''b''] \<longleftrightarrow>
       varies [[(''Date'', VStr ''t2''), (''a'', VInt 1), (''b'', VInt 5)],
          [(''Date'', VStr ''t3''), (''a'', VInt 1)],
          [(''Date'', VStr ''t4''), (''a'', VInt 1), (''b'', VInt 6)]] key)"
    by blast
  then have "varies [[(''Date'', VStr ''t2''), (''a'', VInt 1), (''b'', VInt 5)],
           [(''Date'', VStr ''t3''), (''a'', VInt 1)],
           [(''Date'', VStr ''t4''), (''a'', VInt 1), (''b'', VInt 6)]] ''b''"
    and "\<not> varies [[(''Date'', VStr ''t2''), (''a'', VInt 1), (''b'', VInt 5)],
           [(''Date'', VStr ''t3''), (''a'', VInt 1)],
           [(''Date'', VStr ''t4''), (''a'', VInt 1), (''b'', VInt 6)]] ''a''"
    by simp_all
  moreover from o
  have "occurs [[(''Date'', VStr ''t2''), (''a'', VInt 1), (''b'', VInt 5)],
           [(''Date'', VStr ''t3''), (''a'', VInt 1)],
           [(''Date'', VStr ''t4''), (''a'', VInt 1), (''b'', VInt 6)]] ''a''"
    and "occurs [[(''Date'', VStr ''t2''), (''a'', VInt 1), (''b'', VInt 5)],
           [(''Date'', VStr ''t3''), (''a'', VInt 1)],
           [(''Date'', VStr ''t4''), (''a'', VInt 1), (''b'', VInt 6)]] ''b''"
    by simp_all
  ultimately show ?thesis using p by blast
qed


text \<open>
  C6. The claim: the scan is total, and a key absent from every record is treated as
  unchanging. In the code the first inner loop has no bound: on a key that no record
  has, \<^verbatim>\<open>records[i]\<close> runs past the end of the list and \<^verbatim>\<open>IndexError\<close> ends the run.
  Such a key comes from the first line, whose record gives the first \<open>keys\<close> and is
  not among \<open>records\<close>: a field of the first line that no later line has, or any field
  of a file of one line.
\<close>

theorem purge_fails_on_absent_key:
  "load Inr [] False [''t1|a:1|b:2\<newline>'', ''t2|a:3\<newline>''] =
     Inr ([''Date'', ''a'', ''b''], [[(''Date'', VStr ''t2''), (''a'', VInt 3)]]) \<and>
   purge [[(''Date'', VStr ''t2''), (''a'', VInt 3)]] [''Date'', ''a'', ''b''] [] = Inl IndexError \<and>
   main Inr [] \<lparr>opt_filename = Some ''out'', opt_all = False, opt_fixupDate = False\<rparr>
     [''t1|a:1|b:2\<newline>'', ''t2|a:3\<newline>''] = Inl IndexError \<and>
   main Inr [] \<lparr>opt_filename = Some ''out'', opt_all = False, opt_fixupDate = False\<rparr>
     [''t1|a:1\<newline>''] = Inl IndexError"
proof -
  have l: "load Inr [] False [''t1|a:1|b:2\<newline>'', ''t2|a:3\<newline>''] =
     Inr ([''Date'', ''a'', ''b''], [[(''Date'', VStr ''t2''), (''a'', VInt 3)]])"
    by (simp add: load_ev line_ev)
  have p: "purge [[(''Date'', VStr ''t2''), (''a'', VInt 3)]] [''Date'', ''a'', ''b''] [] =
      Inl IndexError"
    by (simp add: first_present.simps scan_differs.simps)
  have l1: "load Inr [] False [''t1|a:1\<newline>''] = Inr ([''Date'', ''a''], [])"
    by (simp add: load_ev line_ev)
  have p1: "purge [] [''Date'', ''a''] [] = Inl IndexError"
    by (simp add: first_present.simps)
  from l p l1 p1 show ?thesis
    by (simp add: main_def)
qed

section \<open>Lemmas: the driver\<close>

lemma load_first_line:
  assumes "first_line f = (line, f')"
  shows "load strptime_iso blacklist fixupDate f =
    (case parse_line strptime_iso blacklist line fixupDate of
       Inl err \<Rightarrow> Inl err
     | Inr first_record \<Rightarrow>
         load_loop strptime_iso blacklist fixupDate f' (parse_keys first_record, []))"
  using assms by (simp add: load_def)

lemma load_records:
  assumes "load strptime_iso blacklist fixupDate f = Inr (keys, records)"
  shows "map (\<lambda>line. parse_line strptime_iso blacklist line fixupDate)
      (filter (\<lambda>line. \<not> turned_over line) (snd (first_line f))) = map Inr records"
proof -
  obtain line f' where fl: "first_line f = (line, f')"
    by (cases "first_line f")
  from assms obtain r where
    "load_loop strptime_iso blacklist fixupDate f' (parse_keys r, []) = Inr (keys, records)"
    unfolding load_first_line [OF fl]
    by (cases "parse_line strptime_iso blacklist line fixupDate") simp_all
  from load_loop_records [OF this] fl show ?thesis
    by simp
qed

lemma load_total:
  assumes "\<forall>line \<in> set (fst (first_line f) # snd (first_line f)).
    \<exists>r. parse_line strptime_iso blacklist line fixupDate = Inr r"
  shows "\<exists>keys records. load strptime_iso blacklist fixupDate f = Inr (keys, records)"
proof -
  obtain line f' where fl: "first_line f = (line, f')"
    by (cases "first_line f")
  with assms obtain r where r: "parse_line strptime_iso blacklist line fixupDate = Inr r"
    by auto
  from assms fl have
    "\<forall>line \<in> set f'. \<exists>r. parse_line strptime_iso blacklist line fixupDate = Inr r"
    by simp
  from load_loop_total [OF this, of "parse_keys r" "[]"] r show ?thesis
    unfolding load_first_line [OF fl] by simp
qed

lemma main_load:
  assumes "load strptime_iso blacklist (opt_fixupDate opts) f = Inr (keys, records)"
  shows "main strptime_iso blacklist opts f =
    (case (if \<not> opt_all opts then purge records keys [] else Inr keys) of
       Inl err \<Rightarrow> Inl err
     | Inr keys \<Rightarrow>
         (case opt_filename opts of
            None \<Rightarrow> Inr None
          | Some filename \<Rightarrow> Inr (Some (write_combined keys records))))"
  using assms by (simp add: main_def)

lemma main_Some:
  assumes "main strptime_iso blacklist opts f = Inr (Some (header, rows))"
  shows "\<exists>keys records.
    load strptime_iso blacklist (opt_fixupDate opts) f = Inr (keys, records) \<and>
    rows = map (dict_to_list header) records"
proof -
  from assms obtain kr where "load strptime_iso blacklist (opt_fixupDate opts) f = Inr kr"
    by (cases "load strptime_iso blacklist (opt_fixupDate opts) f") (simp_all add: main_def)
  then obtain keys records where
    l: "load strptime_iso blacklist (opt_fixupDate opts) f = Inr (keys, records)"
    by (cases kr) simp
  define purged where
    "purged = (if \<not> opt_all opts then purge records keys [] else Inr keys)"
  from assms have "(case purged of
       Inl err \<Rightarrow> Inl err
     | Inr keys \<Rightarrow>
         (case opt_filename opts of
            None \<Rightarrow> Inr None
          | Some filename \<Rightarrow> Inr (Some (write_combined keys records)))) =
     Inr (Some (header, rows))"
    unfolding main_load [OF l] purged_def .
  then obtain k where "(case opt_filename opts of
            None \<Rightarrow> Inr None
          | Some filename \<Rightarrow> Inr (Some (write_combined k records))) =
     (Inr (Some (header, rows)) :: error + (string list \<times> pyval list list) option)"
    by (cases purged) simp_all
  then have "write_combined k records = (header, rows)"
    by (cases "opt_filename opts") simp_all
  then have "rows = map (dict_to_list header) records"
    by (auto simp: write_combined_def Let_def)
  with l show ?thesis by blast
qed

lemma main_total:
  assumes "load strptime_iso blacklist (opt_fixupDate opts) f = Inr (keys, records)"
    and "opt_filename opts \<noteq> None"
    and "opt_all opts \<or> (\<forall>k \<in> set keys. k \<noteq> ''Date'' \<longrightarrow> occurs records k)"
  shows "\<exists>header rows. main strptime_iso blacklist opts f = Inr (Some (header, rows))"
proof -
  from assms(2) obtain filename where fn: "opt_filename opts = Some filename"
    by (cases "opt_filename opts") simp_all
  have "\<exists>result. (if \<not> opt_all opts then purge records keys [] else Inr keys) = Inr result"
  proof (cases "opt_all opts")
    case True
    then show ?thesis by simp
  next
    case False
    with assms(3) have "\<forall>k \<in> set keys. k \<noteq> ''Date'' \<longrightarrow> occurs records k"
      by simp
    from purge_total [OF this, of "[]"] False show ?thesis
      by simp
  qed
  then obtain result where
    "(if \<not> opt_all opts then purge records keys [] else Inr keys) = Inr result"
    by (rule exE)
  with fn have "main strptime_iso blacklist opts f = Inr (Some (write_combined result records))"
    by (simp only: main_load [OF assms(1)] sum.case option.case)
  then show ?thesis
    by (cases "write_combined result records") simp
qed

section \<open>The claims about reading the file and writing the table\<close>

text \<open>
  C1. The claim: the key set after a record is the union of the key set before it and
  the keys of the record. In the code, when the record has a key that is not in
  \<open>keys\<close>, \<open>keys\<close> becomes the keys of that record, and the other keys are lost:
  after the first line the keys are \<^verbatim>\<open>Date\<close>, \<^verbatim>\<open>a\<close>, \<^verbatim>\<open>b\<close>, after the second they
  are \<^verbatim>\<open>Date\<close>, \<^verbatim>\<open>c\<close>.
\<close>

theorem keys_replaced_not_merged:
  "load Inr [] False [''t1|a:1|b:2\<newline>''] = Inr ([''Date'', ''a'', ''b''], []) \<and>
   load Inr [] False [''t1|a:1|b:2\<newline>'', ''t2|c:3\<newline>''] =
     Inr ([''Date'', ''c''], [[(''Date'', VStr ''t2''), (''c'', VInt 3)]])"
  by (simp add: load_ev line_ev)

text \<open>
  C3. The claim: a line with the rotation marker is skipped before it is parsed. In
  the loop over the lines after the first, the line is parsed first and the marker is
  looked for afterwards, so that a line with the marker that does not parse ends the run;
  without that line the file loads.
\<close>

theorem rotation_line_parsed_before_skipped:
  "turned_over ''x turned over|b\<newline>'' \<and>
   load Inr [] False [''t1|a:1\<newline>'', ''x turned over|b\<newline>''] = Inl IndexError \<and>
   load Inr [] False [''t1|a:1\<newline>''] = Inr ([''Date'', ''a''], [])"
  by (simp add: load_ev line_ev)


text \<open>
  C2, as the code has it. The record of the first line gives the first key list and
  is not among the records written: whenever the combined file is written, its data rows
  are the records of the lines after the first that do not hold the rotation marker, one
  row for each, in the order of the lines, none left out and none merged; a row has the value of the record for each
  column of the header, and 0 where the record has no such key. The file is written when
  every line parses, a file name is given, and either all keys are kept (\<^verbatim>\<open>--all\<close>) or
  every key other than \<^verbatim>\<open>'Date'\<close> occurs in a record.
\<close>

theorem combined_rows:
  "(\<forall>header rows. main strptime_iso blacklist opts f = Inr (Some (header, rows)) \<longrightarrow>
      (\<exists>records.
         map (\<lambda>line. parse_line strptime_iso blacklist line (opt_fixupDate opts))
           (filter (\<lambda>line. \<not> turned_over line) (snd (first_line f))) = map Inr records \<and>
         rows = map (\<lambda>r. map (\<lambda>key. case map_of r key of None \<Rightarrow> VInt 0 | Some v \<Rightarrow> v) header)
                  records)) \<and>
   ((\<forall>line \<in> set (fst (first_line f) # snd (first_line f)).
        \<exists>r. parse_line strptime_iso blacklist line (opt_fixupDate opts) = Inr r) \<longrightarrow>
      (\<exists>keys records.
         load strptime_iso blacklist (opt_fixupDate opts) f = Inr (keys, records) \<and>
         (opt_filename opts \<noteq> None \<and>
          (opt_all opts \<or> (\<forall>k \<in> set keys. k \<noteq> ''Date'' \<longrightarrow> occurs records k)) \<longrightarrow>
          (\<exists>header rows. main strptime_iso blacklist opts f = Inr (Some (header, rows))))))"
proof (intro conjI allI impI)
  fix header rows
  assume "main strptime_iso blacklist opts f = Inr (Some (header, rows))"
  from main_Some [OF this] obtain keys records where
    l: "load strptime_iso blacklist (opt_fixupDate opts) f = Inr (keys, records)"
    and r: "rows = map (dict_to_list header) records"
    by blast
  from load_records [OF l] r
  show "\<exists>records.
         map (\<lambda>line. parse_line strptime_iso blacklist line (opt_fixupDate opts))
           (filter (\<lambda>line. \<not> turned_over line) (snd (first_line f))) = map Inr records \<and>
         rows = map (\<lambda>r. map (\<lambda>key. case map_of r key of None \<Rightarrow> VInt 0 | Some v \<Rightarrow> v) header)
                  records"
    unfolding dict_to_list_def by blast
next
  assume "\<forall>line \<in> set (fst (first_line f) # snd (first_line f)).
        \<exists>r. parse_line strptime_iso blacklist line (opt_fixupDate opts) = Inr r"
  from load_total [OF this] obtain keys records where
    l: "load strptime_iso blacklist (opt_fixupDate opts) f = Inr (keys, records)"
    by blast
  with main_total [OF l]
  show "\<exists>keys records.
         load strptime_iso blacklist (opt_fixupDate opts) f = Inr (keys, records) \<and>
         (opt_filename opts \<noteq> None \<and>
          (opt_all opts \<or> (\<forall>k \<in> set keys. k \<noteq> ''Date'' \<longrightarrow> occurs records k)) \<longrightarrow>
          (\<exists>header rows. main strptime_iso blacklist opts f = Inr (Some (header, rows))))"
    by blast
qed

theorem combined_rows_witness:
  "main Inr [] \<lparr>opt_filename = Some ''out'', opt_all = False, opt_fixupDate = False\<rparr>
     [''t1|a:1|b:1\<newline>'', ''t2|a:2|b:5\<newline>'', ''t3|a:3\<newline>'', ''t4|a:4|b:6\<newline>''] =
     Inr (Some ([''Date'', ''a'', ''b''],
       [[VStr ''t2'', VInt 2, VInt 5], [VStr ''t3'', VInt 3, VInt 0], [VStr ''t4'', VInt 4, VInt 6]])) \<and>
   (\<exists>records.
      map (\<lambda>line. parse_line Inr [] line False)
        (filter (\<lambda>line. \<not> turned_over line)
           (snd (first_line [''t1|a:1|b:1\<newline>'', ''t2|a:2|b:5\<newline>'', ''t3|a:3\<newline>'',
                             ''t4|a:4|b:6\<newline>'']))) = map Inr records \<and>
      length records = 3 \<and>
      [[VStr ''t2'', VInt 2, VInt 5], [VStr ''t3'', VInt 3, VInt 0], [VStr ''t4'', VInt 4, VInt 6]] =
        map (\<lambda>r. map (\<lambda>key. case map_of r key of None \<Rightarrow> VInt 0 | Some v \<Rightarrow> v)
                   [''Date'', ''a'', ''b'']) records)"
proof -
  have l: "load Inr [] False
     [''t1|a:1|b:1\<newline>'', ''t2|a:2|b:5\<newline>'', ''t3|a:3\<newline>'', ''t4|a:4|b:6\<newline>''] =
     Inr ([''Date'', ''a'', ''b''],
       [[(''Date'', VStr ''t2''), (''a'', VInt 2), (''b'', VInt 5)],
        [(''Date'', VStr ''t3''), (''a'', VInt 3)],
        [(''Date'', VStr ''t4''), (''a'', VInt 4), (''b'', VInt 6)]])"
    by (simp add: load_ev line_ev)
  have p: "purge [[(''Date'', VStr ''t2''), (''a'', VInt 2), (''b'', VInt 5)],
        [(''Date'', VStr ''t3''), (''a'', VInt 3)],
        [(''Date'', VStr ''t4''), (''a'', VInt 4), (''b'', VInt 6)]] [''Date'', ''a'', ''b''] [] =
      Inr [''a'', ''b'']"
    by (simp add: first_present.simps scan_differs.simps)
  have m: "main Inr [] \<lparr>opt_filename = Some ''out'', opt_all = False, opt_fixupDate = False\<rparr>
     [''t1|a:1|b:1\<newline>'', ''t2|a:2|b:5\<newline>'', ''t3|a:3\<newline>'', ''t4|a:4|b:6\<newline>''] =
     Inr (Some ([''Date'', ''a'', ''b''],
       [[VStr ''t2'', VInt 2, VInt 5], [VStr ''t3'', VInt 3, VInt 0], [VStr ''t4'', VInt 4, VInt 6]]))"
    using l p by (simp add: main_def write_combined_def dict_to_list_def)
  note combined_rows
    [of Inr "[]" "\<lparr>opt_filename = Some ''out'', opt_all = False, opt_fixupDate = False\<rparr>"
        "[''t1|a:1|b:1\<newline>'', ''t2|a:2|b:5\<newline>'', ''t3|a:3\<newline>'', ''t4|a:4|b:6\<newline>'']",
     THEN conjunct1, THEN spec, THEN spec, THEN mp, OF m]
  then obtain records where r:
    "map (\<lambda>line. parse_line Inr [] line False)
        (filter (\<lambda>line. \<not> turned_over line)
           (snd (first_line [''t1|a:1|b:1\<newline>'', ''t2|a:2|b:5\<newline>'', ''t3|a:3\<newline>'',
                             ''t4|a:4|b:6\<newline>'']))) = map Inr records"
    "[[VStr ''t2'', VInt 2, VInt 5], [VStr ''t3'', VInt 3, VInt 0], [VStr ''t4'', VInt 4, VInt 6]] =
        map (\<lambda>r. map (\<lambda>key. case map_of r key of None \<Rightarrow> VInt 0 | Some v \<Rightarrow> v)
                   [''Date'', ''a'', ''b'']) records"
    by (simp only: select_convs) (erule exE, erule conjE)
  from arg_cong [OF r(2), of length] have len: "length records = 3"
    by simp
  show ?thesis
    by (rule conjI [OF m], rule exI [of _ records], intro conjI) (fact r(1) len r(2))+
qed

text \<open>
  C2 as stated fails: of two lines that parse, only the second gives a row; the first
  line gives none.
\<close>

theorem combined_rows_counterexample:
  "parse_line Inr [] ''t1|a:1\<newline>'' False = Inr [(''Date'', VStr ''t1''), (''a'', VInt 1)] \<and>
   parse_line Inr [] ''t2|a:2\<newline>'' False = Inr [(''Date'', VStr ''t2''), (''a'', VInt 2)] \<and>
   main Inr [] \<lparr>opt_filename = Some ''out'', opt_all = True, opt_fixupDate = False\<rparr>
     [''t1|a:1\<newline>'', ''t2|a:2\<newline>''] =
     Inr (Some ([''Date'', ''Date'', ''a''], [[VStr ''t2'', VStr ''t2'', VInt 2]])) \<and>
   main Inr [] \<lparr>opt_filename = Some ''out'', opt_all = False, opt_fixupDate = False\<rparr>
     [''t1|a:1\<newline>'', ''t2|a:2\<newline>''] = Inr (Some ([''Date''], [[VStr ''t2'']]))"
proof -
  have l: "load Inr [] False [''t1|a:1\<newline>'', ''t2|a:2\<newline>''] =
      Inr ([''Date'', ''a''], [[(''Date'', VStr ''t2''), (''a'', VInt 2)]])"
    by (simp add: load_ev line_ev)
  have p: "purge [[(''Date'', VStr ''t2''), (''a'', VInt 2)]] [''Date'', ''a''] [] = Inr []"
    by (simp add: first_present.simps scan_differs.simps)
  have a: "parse_line Inr [] ''t1|a:1\<newline>'' False = Inr [(''Date'', VStr ''t1''), (''a'', VInt 1)]"
    by (simp add: line_ev)
  have b: "parse_line Inr [] ''t2|a:2\<newline>'' False = Inr [(''Date'', VStr ''t2''), (''a'', VInt 2)]"
    by (simp add: line_ev)
  from l p a b show ?thesis
    by (simp add: main_def write_combined_def dict_to_list_def)
qed

end
